theory Spec2Isabelle
  imports Complex_Main
begin

section \<open>Conventions of the embedding\<close>

text \<open>
  The C++ type \<^verbatim>\<open>double\<close> is idealised as \<^typ>\<open>real\<close>: rounding, infinities and NaN are
  not represented, and the literals \<^verbatim>\<open>0.85\<close>, \<^verbatim>\<open>1.25\<close>, \<^verbatim>\<open>1.02\<close> stand for the exact
  rationals. \<^verbatim>\<open>int\<close> counters are unbounded integers; sizes are natural numbers.
  Every assertion failure, abort and undefined operation of the source is a value of the
  type \<open>error\<close>; a routine that can fail returns \<open>error + result\<close>.
\<close>

datatype error =
    AssertionFailed   \<comment> \<open>an \<^verbatim>\<open>assert(...)\<close> of the source does not hold\<close>
  | NullDereference   \<comment> \<open>a call through a pointer that is still \<^verbatim>\<open>NULL\<close>: undefined behaviour\<close>
  | OutOfBounds       \<comment> \<open>an unchecked access outside an array: undefined behaviour\<close>
  | TimeStepCrashed   \<comment> \<open>\<^verbatim>\<open>MFEM_ABORT("The time step crashed!")\<close>\<close>

section \<open>The partially assembled mass operator (kernels/kMassPAOperator.cpp)\<close>

type_synonym vec = "real list"
type_synonym addr = nat
type_synonym heap = "addr \<Rightarrow> vec"

text \<open>
  The vectors \<^verbatim>\<open>x\<close> and \<^verbatim>\<open>y\<close> of \<^verbatim>\<open>Mult\<close> are C++ references, so they are addresses
  into a heap of vectors: the same address may be passed for both. The members of the
  operator object are the fields of the record. \<^verbatim>\<open>massOperator\<close> is a pointer that the
  constructor sets to \<^verbatim>\<open>NULL\<close> and \<^verbatim>\<open>Setup\<close> sets to the operator formed by the
  bilinear form; the action of that operator is a function on vectors.
\<close>

record kMassPAOperator =
  ess_tdofs_count :: int
  ess_tdofs :: "int list"
  massOperator :: "(vec \<Rightarrow> vec) option"
  distX :: vec

text \<open>The constructor: \<^verbatim>\<open>ess_tdofs_count(0), ess_tdofs(0), massOperator(NULL)\<close>.\<close>

definition kMassPAOperator_init :: kMassPAOperator where
  "kMassPAOperator_init =
     \<lparr>ess_tdofs_count = 0, ess_tdofs = [], massOperator = None, distX = []\<rparr>"

text \<open>
  \<^verbatim>\<open>Setup\<close> assembles the bilinear form and stores the operator it forms. The action
  \<open>A\<close> of that operator is produced by the finite element library and is a parameter.
\<close>

definition Setup :: "(vec \<Rightarrow> vec) \<Rightarrow> kMassPAOperator \<Rightarrow> kMassPAOperator" where
  "Setup A K = K\<lparr>massOperator := Some A\<rparr>"

text \<open>
  \<^verbatim>\<open>SetSize(n)\<close> of the arrays and vectors of the library gives the size \<open>n\<close>. Entries
  that C++ leaves indeterminate are written as \<open>0\<close> here; every caller below overwrites
  them or never reads them.
\<close>

definition SetSize :: "nat \<Rightarrow> 'a::zero list \<Rightarrow> 'a list" where
  "SetSize n xs = take n xs @ replicate (n - length xs) 0"

text \<open>
  \<^verbatim>\<open>SetEssentialTrueDofs\<close>. The argument \<open>others\<close> is the sum of the counts of the other
  ranks, so that \<^verbatim>\<open>MPI_Allreduce(..., MPI_SUM, ...)\<close> yields the local count plus
  \<open>others\<close>. \<^verbatim>\<open>assert(dofs.GetData())\<close> is reached with a nonempty array only, whose
  data pointer is not null. \<^verbatim>\<open>ess_tdofs = dofs\<close> is the deep copy of the array.
\<close>

definition SetEssentialTrueDofs ::
    "nat \<Rightarrow> int list \<Rightarrow> kMassPAOperator \<Rightarrow> error + kMassPAOperator" where
  "SetEssentialTrueDofs others dofs K =
     (let K1 = K\<lparr>ess_tdofs_count := int (length dofs)\<rparr> in
      case
        (if length (ess_tdofs K1) = 0 then
           (let global_ess_tdofs_count = ess_tdofs_count K1 + int others in
            if global_ess_tdofs_count > 0
            then Inr (K1\<lparr>ess_tdofs := SetSize (nat global_ess_tdofs_count) (ess_tdofs K1)\<rparr>)
            else Inl AssertionFailed)
         else
           (if ess_tdofs_count K1 \<le> int (length (ess_tdofs K1))
            then Inr K1
            else Inl AssertionFailed))
      of
        Inl e \<Rightarrow> Inl e
      | Inr K2 \<Rightarrow>
          if ess_tdofs_count K2 = 0 then Inr K2
          else Inr (K2\<lparr>ess_tdofs := dofs\<rparr>))"

text \<open>
  \<^verbatim>\<open>Vector::SetSubVector(dofs, value)\<close> of the library: for each entry \<open>j\<close> of \<open>dofs\<close> in
  order, \<^verbatim>\<open>data[j] = value\<close> when \<open>j \<ge> 0\<close> and \<^verbatim>\<open>data[-1-j] = -value\<close> otherwise. The
  access is unchecked; outside the vector it is undefined behaviour.
\<close>

definition dof_index :: "int \<Rightarrow> nat" where
  "dof_index j = (if j \<ge> 0 then nat j else nat (- 1 - j))"

fun SetSubVector :: "int list \<Rightarrow> real \<Rightarrow> vec \<Rightarrow> error + vec" where
  "SetSubVector [] v d = Inr d"
| "SetSubVector (j # js) v d =
     (if dof_index j < length d
      then SetSubVector js v (d[dof_index j := (if j \<ge> 0 then v else - v)])
      else Inl OutOfBounds)"

text \<open>\<^verbatim>\<open>EliminateRHS(b)\<close>, with \<open>b\<close> an address as well.\<close>

definition EliminateRHS :: "kMassPAOperator \<Rightarrow> addr \<Rightarrow> heap \<Rightarrow> error + heap" where
  "EliminateRHS K b h =
     (if ess_tdofs_count K > 0
      then (case SetSubVector (ess_tdofs K) 0 (h b) of
              Inl e \<Rightarrow> Inl e
            | Inr bv \<Rightarrow> Inr (h(b := bv)))
      else Inr h)"

text \<open>
  \<^verbatim>\<open>Mult(x, y)\<close>. The scratch vector \<^verbatim>\<open>distX\<close> is a \<^verbatim>\<open>mutable\<close> member, so the
  operator object is returned with the heap. \<^verbatim>\<open>distX = x\<close> copies the entries of \<open>x\<close>.
  \<^verbatim>\<open>massOperator->Mult(distX, y)\<close> is a call through the pointer, with no check in front
  of it; the operator writes its result to \<open>y\<close>.
\<close>

definition Mult ::
    "kMassPAOperator \<Rightarrow> addr \<Rightarrow> addr \<Rightarrow> heap \<Rightarrow> error + (kMassPAOperator \<times> heap)" where
  "Mult K x y h =
     (let K1 = (if length (distX K) \<noteq> length (h x)
                then K\<lparr>distX := SetSize (length (h x)) (distX K)\<rparr> else K) in
      if length (distX K1) \<noteq> length (h x) then Inl AssertionFailed
      else
        let K2 = K1\<lparr>distX := h x\<rparr> in
        case (if ess_tdofs_count K2 \<noteq> 0
              then SetSubVector (ess_tdofs K2) 0 (distX K2) else Inr (distX K2)) of
          Inl e \<Rightarrow> Inl e
        | Inr dx \<Rightarrow>
            let K3 = K2\<lparr>distX := dx\<rparr> in
            (case massOperator K3 of
               None \<Rightarrow> Inl NullDereference
             | Some A \<Rightarrow>
                 let h1 = h(y := A (distX K3)) in
                 (case (if ess_tdofs_count K3 \<noteq> 0
                        then SetSubVector (ess_tdofs K3) 0 (h1 y) else Inr (h1 y)) of
                    Inl e \<Rightarrow> Inl e
                  | Inr yv \<Rightarrow> Inr (K3, h1(y := yv)))))"

text \<open>The positions pinned by the recorded array of essential dofs.\<close>

definition pinned :: "kMassPAOperator \<Rightarrow> nat set" where
  "pinned K = dof_index ` set (ess_tdofs K)"

section \<open>The force integrator (\<^verbatim>\<open>ForceIntegrator::AssembleElementMatrix2\<close>)\<close>

text \<open>
  A \<^verbatim>\<open>DenseMatrix\<close> of the library stores its entries by columns: entry \<open>(i, j)\<close> is at
  position \<open>i + j * Height\<close> of the data array. \<^verbatim>\<open>SetSize\<close> keeps or reallocates the data
  array, and \<^verbatim>\<open>elmat = 0.0\<close> sets every entry to 0.
\<close>

record dense_matrix =
  Height :: nat
  Width :: nat
  Data :: "real list"

definition elem :: "dense_matrix \<Rightarrow> nat \<Rightarrow> nat \<Rightarrow> real" where
  "elem M i j = Data M ! (i + j * Height M)"

definition set_elem :: "dense_matrix \<Rightarrow> nat \<Rightarrow> nat \<Rightarrow> real \<Rightarrow> dense_matrix" where
  "set_elem M i j v = M\<lparr>Data := (Data M)[i + j * Height M := v]\<rparr>"

definition DenseMatrix_SetSize :: "nat \<Rightarrow> nat \<Rightarrow> dense_matrix \<Rightarrow> dense_matrix" where
  "DenseMatrix_SetSize h w M = \<lparr>Height = h, Width = w, Data = SetSize (h * w) (Data M)\<rparr>"

definition assign_all :: "real \<Rightarrow> dense_matrix \<Rightarrow> dense_matrix" where
  "assign_all c M = M\<lparr>Data := map (\<lambda>x. c) (Data M)\<rparr>"

text \<open>
  What the integrator uses of a finite element: its dimension, its number of dofs, and
  the values and reference gradients of its basis functions at the points of the
  integration rule, which \<^verbatim>\<open>CalcShape(ip, shape)\<close> and \<^verbatim>\<open>CalcDShape(ip, vshape)\<close> write to
  a vector and a matrix of the right size. The point \<^verbatim>\<open>IntRule->IntPoint(q)\<close> is named by
  its index \<open>q\<close>: \<open>CalcShape fe q i\<close> is \<^verbatim>\<open>shape(i)\<close> and \<open>CalcDShape fe q i gd\<close> is
  \<^verbatim>\<open>vshape(i, gd)\<close>.
\<close>

record FiniteElement =
  GetDim :: nat
  GetDof :: nat
  CalcShape :: "nat \<Rightarrow> nat \<Rightarrow> real"
  CalcDShape :: "nat \<Rightarrow> nat \<Rightarrow> nat \<Rightarrow> real"

text \<open>
  The three inner loops that form \<^verbatim>\<open>stress:grad_shape\<close> at one point in \<^verbatim>\<open>loc_force\<close>.
  \<open>stressJinvT vd eq gd\<close> is \<^verbatim>\<open>stressJinvT(vd)(eq, gd)\<close> of the quadrature data.
\<close>

definition form_loc_force ::
    "(nat \<Rightarrow> nat \<Rightarrow> nat \<Rightarrow> real) \<Rightarrow> (nat \<Rightarrow> nat \<Rightarrow> real) \<Rightarrow> nat \<Rightarrow> nat \<Rightarrow> nat \<Rightarrow>
     dense_matrix \<Rightarrow> dense_matrix" where
  "form_loc_force stressJinvT vshape eq h1dofs_cnt dm loc_force =
     fold (\<lambda>i. fold (\<lambda>vd loc.
                   fold (\<lambda>gd loc. set_elem loc i vd
                                    (elem loc i vd + stressJinvT vd eq gd * vshape i gd))
                        [0..<dm]
                        (set_elem loc i vd 0))
                 [0..<dm])
          [0..<h1dofs_cnt] loc_force"

text \<open>
  \<^verbatim>\<open>AddMultVWt(v, w, VWt)\<close> of the library: \<^verbatim>\<open>VWt(i, j) += v(i) * w(j)\<close> for all \<open>i\<close> below
  the size \<open>m\<close> of \<open>v\<close> and all \<open>j\<close> below the size of \<open>w\<close>.
\<close>

definition AddMultVWt :: "nat \<Rightarrow> (nat \<Rightarrow> real) \<Rightarrow> real list \<Rightarrow> dense_matrix \<Rightarrow> dense_matrix" where
  "AddMultVWt m v w VWt =
     fold (\<lambda>i. fold (\<lambda>j M. set_elem M i j (elem M i j + v i * w ! j)) [0..<length w])
          [0..<m] VWt"

text \<open>
  \<^verbatim>\<open>AssembleElementMatrix2(trial_fe, test_fe, Tr, elmat)\<close>, with \<open>e\<close> for \<^verbatim>\<open>Tr.ElementNo\<close>
  and \<open>nqp\<close> for \<^verbatim>\<open>IntRule->GetNPoints()\<close>. \<^verbatim>\<open>Vloc_force\<close> is a vector on the data array of
  \<^verbatim>\<open>loc_force\<close>, of size \<^verbatim>\<open>h1dofs_cnt*dim\<close>. All indices of the source are inside their
  arrays. The entries of the fresh \<^verbatim>\<open>loc_force\<close>, indeterminate in C++, are written as 0.
\<close>

definition AssembleElementMatrix2 ::
    "nat \<Rightarrow> (nat \<Rightarrow> nat \<Rightarrow> nat \<Rightarrow> real) \<Rightarrow> FiniteElement \<Rightarrow> FiniteElement \<Rightarrow> nat \<Rightarrow>
     dense_matrix \<Rightarrow> dense_matrix" where
  "AssembleElementMatrix2 nqp stressJinvT trial_fe test_fe e elmat =
     (let dm = GetDim trial_fe;
          h1dofs_cnt = GetDof trial_fe;
          l2dofs_cnt = GetDof test_fe;
          elmat0 = assign_all 0 (DenseMatrix_SetSize l2dofs_cnt (h1dofs_cnt * dm) elmat);
          loc_force0 = \<lparr>Height = h1dofs_cnt, Width = dm,
                        Data = replicate (h1dofs_cnt * dm) 0\<rparr>
      in fst (fold (\<lambda>q (elmat, loc_force).
                      let loc_force1 = form_loc_force stressJinvT (CalcDShape trial_fe q)
                                         (e * nqp + q) h1dofs_cnt dm loc_force
                      in (AddMultVWt l2dofs_cnt (CalcShape test_fe q) (Data loc_force1) elmat,
                          loc_force1))
                   [0..<nqp] (elmat0, loc_force0)))"

section \<open>The adaptive time-stepping loop of \<^verbatim>\<open>main\<close>\<close>

text \<open>
  The loop of \<^verbatim>\<open>main\<close> uses the hydrodynamics operator and the ODE solver through
  calls whose code is elsewhere. They are the fields of \<open>driver\<close>, over an arbitrary type
  \<open>'s\<close> of state vectors and an arbitrary type \<open>'h\<close> for the internal state of the
  operator (its quadrature data and running time step estimate):
  \<^item> \<^verbatim>\<open>ode_solver->Step(S, t, dt)\<close> returns the new state vector and the new time, and
    may change the operator (it calls its \<^verbatim>\<open>Mult\<close>); the explicit solvers selected in
    \<^verbatim>\<open>main\<close> leave \<^verbatim>\<open>dt\<close> as it is;
  \<^item> \<^verbatim>\<open>hydro.GetTimeStepEstimate(S)\<close> returns the estimate and may change the operator;
  \<^item> \<^verbatim>\<open>hydro.ResetTimeStepEstimate()\<close> and \<^verbatim>\<open>hydro.ResetQuadratureData()\<close> change
    the operator only.
  \<^verbatim>\<open>t_final\<close> and \<^verbatim>\<open>max_tsteps\<close> are the command line options.
\<close>

record ('s, 'h) driver =
  t_final :: real
  max_tsteps :: int
  ode_Step :: "'h \<Rightarrow> 's \<Rightarrow> real \<Rightarrow> real \<Rightarrow> 's \<times> real \<times> 'h"
  ResetTimeStepEstimate :: "'h \<Rightarrow> 'h"
  GetTimeStepEstimate :: "'h \<Rightarrow> 's \<Rightarrow> real \<times> 'h"
  ResetQuadratureData :: "'h \<Rightarrow> 'h"

text \<open>The local variables of \<^verbatim>\<open>main\<close> that the loop reads and writes, and the operator.\<close>

record ('s, 'h) loop_state =
  S :: 's
  S_old :: 's
  t :: real
  t_old :: real
  dt :: real
  last_step :: bool
  steps :: int
  ti :: int
  hydro :: 'h

text \<open>\<^verbatim>\<open>std::numeric_limits<double>::epsilon()\<close>, which is \<open>2\<^sup>-\<^sup>5\<^sup>2\<close>.\<close>

definition epsilon :: real where
  "epsilon = 1 / 2 ^ 52"

text \<open>
  The loop body up to the call of the solver: the clamp of \<^verbatim>\<open>dt\<close> at the final time, the
  step limit, the saved copies and \<^verbatim>\<open>hydro.ResetTimeStepEstimate()\<close>.
\<close>

definition pre_step :: "('s, 'h) driver \<Rightarrow> ('s, 'h) loop_state \<Rightarrow> ('s, 'h) loop_state" where
  "pre_step D st =
     (let st1 = (if t st + dt st \<ge> t_final D
                 then st\<lparr>dt := t_final D - t st, last_step := True\<rparr> else st);
          st2 = (if steps st1 = max_tsteps D then st1\<lparr>last_step := True\<rparr> else st1)
      in st2\<lparr>S_old := S st2, t_old := t st2,
              hydro := ResetTimeStepEstimate D (hydro st2)\<rparr>)"

text \<open>
  \<^verbatim>\<open>ode_solver->Step(S, t, dt); steps++;\<close> and the query of the new estimate. The result
  is the state after these statements and the value of \<^verbatim>\<open>dt_est\<close>.
\<close>

definition attempt ::
    "('s, 'h) driver \<Rightarrow> ('s, 'h) loop_state \<Rightarrow> ('s, 'h) loop_state \<times> real" where
  "attempt D st =
     (case ode_Step D (hydro st) (S st) (t st) (dt st) of
        (S', t', h') \<Rightarrow>
          let st1 = st\<lparr>S := S', t := t', hydro := h', steps := steps st + 1\<rparr> in
          (case GetTimeStepEstimate D (hydro st1) (S st1) of
             (dt_est, h'') \<Rightarrow> (st1\<lparr>hydro := h''\<rparr>, dt_est)))"

text \<open>
  The adaptive time step control. In the first branch the body ends with
  \<^verbatim>\<open>ti--; continue;\<close>. In the other two the rest of the body (mesh nodes, output) does not
  change any of the variables modelled here.
\<close>

definition control ::
    "('s, 'h) driver \<Rightarrow> ('s, 'h) loop_state \<Rightarrow> real \<Rightarrow> error + ('s, 'h) loop_state" where
  "control D st dt_est =
     (if dt_est < dt st then
        (let st1 = st\<lparr>dt := dt st * 0.85\<rparr> in
         if dt st1 < epsilon then Inl TimeStepCrashed
         else
           let st2 = st1\<lparr>t := t_old st1, S := S_old st1,
                         hydro := ResetQuadratureData D (hydro st1)\<rparr>;
               st3 = (if steps st2 < max_tsteps D then st2\<lparr>last_step := False\<rparr> else st2)
           in Inr (st3\<lparr>ti := ti st3 - 1\<rparr>))
      else if dt_est > 1.25 * dt st then Inr (st\<lparr>dt := dt st * 1.02\<rparr>)
      else Inr st)"

text \<open>One pass through the body of the \<^verbatim>\<open>for\<close> loop, followed by its increment \<^verbatim>\<open>ti++\<close>.\<close>

definition iteration ::
    "('s, 'h) driver \<Rightarrow> ('s, 'h) loop_state \<Rightarrow> error + ('s, 'h) loop_state" where
  "iteration D st =
     (case attempt D (pre_step D st) of
        (st1, dt_est) \<Rightarrow>
          (case control D st1 dt_est of
             Inl e \<Rightarrow> Inl e
           | Inr st2 \<Rightarrow> Inr (st2\<lparr>ti := ti st2 + 1\<rparr>)))"

text \<open>
  \<^verbatim>\<open>for (int ti = 1; !last_step; ti++) { ... }\<close> with a bound on the number of passes:
  \<open>None\<close> when the bound is used up before the loop has ended, \<open>Some (Inl e)\<close> when the
  program aborts, \<open>Some (Inr st)\<close> when the loop is left in state \<open>st\<close>.
\<close>

fun time_loop ::
    "nat \<Rightarrow> ('s, 'h) driver \<Rightarrow> ('s, 'h) loop_state \<Rightarrow> (error + ('s, 'h) loop_state) option" where
  "time_loop 0 D st = (if last_step st then Some (Inr st) else None)"
| "time_loop (Suc n) D st =
     (if last_step st then Some (Inr st)
      else (case iteration D st of
              Inl e \<Rightarrow> Some (Inl e)
            | Inr st' \<Rightarrow> time_loop n D st'))"

text \<open>
  Notions to state properties of a pass: the step size the solver is called with, the
  estimate obtained after the call, and whether the pass takes the rejecting branch.
\<close>

definition used_dt :: "('s, 'h) driver \<Rightarrow> ('s, 'h) loop_state \<Rightarrow> real" where
  "used_dt D st = dt (pre_step D st)"

definition new_estimate :: "('s, 'h) driver \<Rightarrow> ('s, 'h) loop_state \<Rightarrow> real" where
  "new_estimate D st = snd (attempt D (pre_step D st))"

definition rejected :: "('s, 'h) driver \<Rightarrow> ('s, 'h) loop_state \<Rightarrow> bool" where
  "rejected D st = (new_estimate D st < used_dt D st)"

text \<open>The states in which the loop evaluates its condition, from a given state on.\<close>

inductive_set reach :: "('s, 'h) driver \<Rightarrow> ('s, 'h) loop_state \<Rightarrow> ('s, 'h) loop_state set"
  for D :: "('s, 'h) driver" and st :: "('s, 'h) loop_state" where
  reach_start: "st \<in> reach D st"
| reach_pass: "st1 \<in> reach D st \<Longrightarrow> \<not> last_step st1 \<Longrightarrow> iteration D st1 = Inr st2
               \<Longrightarrow> st2 \<in> reach D st"

text \<open>
  \<open>rejections D st st'\<close>: the loop gets from \<open>st\<close> to \<open>st'\<close> by one or more passes that
  all take the rejecting branch.
\<close>

inductive rejections ::
    "('s, 'h) driver \<Rightarrow> ('s, 'h) loop_state \<Rightarrow> ('s, 'h) loop_state \<Rightarrow> bool"
  for D :: "('s, 'h) driver" and st :: "('s, 'h) loop_state" where
  rejections_one: "rejected D st \<Longrightarrow> iteration D st = Inr st1 \<Longrightarrow> rejections D st st1"
| rejections_more: "rejections D st st1 \<Longrightarrow> \<not> last_step st1 \<Longrightarrow> rejected D st1
                    \<Longrightarrow> iteration D st1 = Inr st2 \<Longrightarrow> rejections D st st2"

section \<open>Concrete inputs\<close>

text \<open>A heap in which every vector is empty, to build concrete heaps from.\<close>

definition empty_heap :: heap where
  "empty_heap = (\<lambda>a. [])"

text \<open>
  A small configuration to run the loop on explicit inputs: state vectors are numbers,
  the solver adds the step size to the state vector and to the time, and the operator
  remembers the step size of its last call, from which the function \<open>est\<close> computes the
  estimate.
\<close>

definition sample_Step :: "real \<Rightarrow> real \<Rightarrow> real \<Rightarrow> real \<Rightarrow> real \<times> real \<times> real" where
  "sample_Step h x tm d = (x + d, tm + d, d)"

definition sample_estimate :: "(real \<Rightarrow> real) \<Rightarrow> real \<Rightarrow> real \<Rightarrow> real \<times> real" where
  "sample_estimate est h x = (est h, h)"

definition sample_reset :: "real \<Rightarrow> real" where
  "sample_reset h = 0"

definition sample_driver :: "real \<Rightarrow> int \<Rightarrow> (real \<Rightarrow> real) \<Rightarrow> (real, real) driver" where
  "sample_driver tf ms est =
     \<lparr>t_final = tf, max_tsteps = ms, ode_Step = sample_Step, ResetTimeStepEstimate = id,
      GetTimeStepEstimate = sample_estimate est, ResetQuadratureData = sample_reset\<rparr>"

definition fixed_estimate :: "real \<Rightarrow> real \<Rightarrow> real" where
  "fixed_estimate c d = c"

definition lower_estimate :: "real \<Rightarrow> real" where
  "lower_estimate d = d - 1"

text \<open>
  A zone for the force integrator: the stress is minus the identity at every point, the
  basis functions of the test element are 1, and the gradient entries of the trial
  element are small integers.
\<close>

definition sample_stress :: "nat \<Rightarrow> nat \<Rightarrow> nat \<Rightarrow> real" where
  "sample_stress vd eq gd = (if vd = gd then - 1 else 0)"

definition sample_shape :: "nat \<Rightarrow> nat \<Rightarrow> real" where
  "sample_shape q i = 1"

definition sample_dshape :: "nat \<Rightarrow> nat \<Rightarrow> nat \<Rightarrow> real" where
  "sample_dshape q i gd = real (q + i + gd)"

section \<open>Properties of the mass operator\<close>

lemma SetSubVector_length:
  "SetSubVector js v d = Inr d' \<Longrightarrow> length d' = length d"
  by (induction js arbitrary: d) (auto split: if_splits)

lemma SetSubVector_keeps_zero:
  "SetSubVector js 0 e = Inr d' \<Longrightarrow> k < length e \<Longrightarrow> e ! k = 0 \<Longrightarrow> d' ! k = 0"
  by (induction js arbitrary: e) (auto split: if_splits simp: nth_list_update)

lemma SetSubVector_zero_pinned:
  "SetSubVector js 0 d = Inr d' \<Longrightarrow> j \<in> set js \<Longrightarrow> d' ! dof_index j = 0"
proof (induction js arbitrary: d)
  case Nil
  then show ?case by simp
next
  case (Cons a js)
  from Cons.prems(1) have inb: "dof_index a < length d"
    and rest: "SetSubVector js 0 (d[dof_index a := 0]) = Inr d'"
    by (auto split: if_splits)
  show ?case
  proof (cases "j \<in> set js")
    case True
    with Cons.IH [OF rest] show ?thesis by simp
  next
    case False
    with Cons.prems(2) have ja: "j = a" by simp
    from inb have "d[dof_index a := 0] ! dof_index a = 0" by simp
    with SetSubVector_keeps_zero [OF rest] inb show ?thesis
      unfolding ja by simp
  qed
qed

lemma SetSubVector_succeeds:
  "\<forall>j\<in>set js. dof_index j < length d \<Longrightarrow> \<exists>d'. SetSubVector js v d = Inr d'"
  by (induction js arbitrary: d) auto

lemma SetSubVector_agree:
  "length d1 = length d2 \<Longrightarrow>
   (\<forall>i<length d1. i \<notin> dof_index ` set js \<longrightarrow> d1 ! i = d2 ! i) \<Longrightarrow>
   SetSubVector js 0 d1 = SetSubVector js 0 d2"
proof (induction js arbitrary: d1 d2)
  case Nil
  then show ?case by (simp add: nth_equalityI)
next
  case (Cons j js)
  let ?k = "dof_index j"
  show ?case
  proof (cases "?k < length d1")
    case True
    have "SetSubVector js 0 (d1[?k := 0]) = SetSubVector js 0 (d2[?k := 0])"
    proof (rule Cons.IH)
      show "length (d1[?k := 0]) = length (d2[?k := 0])"
        using Cons.prems(1) by simp
      show "\<forall>i<length (d1[?k := 0]). i \<notin> dof_index ` set js \<longrightarrow>
              d1[?k := 0] ! i = d2[?k := 0] ! i"
      proof (intro allI impI)
        fix i assume i: "i < length (d1[?k := 0])" "i \<notin> dof_index ` set js"
        show "d1[?k := 0] ! i = d2[?k := 0] ! i"
        proof (cases "i = ?k")
          case True
          with i Cons.prems(1) show ?thesis by simp
        next
          case False
          with i Cons.prems show ?thesis by simp
        qed
      qed
    qed
    with True Cons.prems(1) show ?thesis by simp
  next
    case False
    with Cons.prems(1) show ?thesis by simp
  qed
qed

lemma Mult_eq:
  "Mult K x y h =
     (case (if ess_tdofs_count K \<noteq> 0
            then SetSubVector (ess_tdofs K) 0 (h x) else Inr (h x)) of
        Inl e \<Rightarrow> Inl e
      | Inr dx \<Rightarrow>
          (case massOperator K of
             None \<Rightarrow> Inl NullDereference
           | Some A \<Rightarrow>
               (case (if ess_tdofs_count K \<noteq> 0
                      then SetSubVector (ess_tdofs K) 0 (A dx) else Inr (A dx)) of
                  Inl e \<Rightarrow> Inl e
                | Inr yv \<Rightarrow> Inr (K\<lparr>distX := dx\<rparr>, h(y := yv)))))"
  by (auto simp: Mult_def SetSize_def Let_def split: sum.splits option.splits)

lemma SetSubVector_error:
  "SetSubVector js v d = Inl e \<Longrightarrow> e = OutOfBounds"
  by (induction js arbitrary: d) (auto split: if_splits)

text \<open>
  C2. With a nonempty array of pinned dofs recorded, \<^verbatim>\<open>Mult\<close> returns an output
  vector whose pinned entries are exactly 0, and two inputs that differ only in pinned
  entries give the same result. The operator has been set up, its action keeps the size
  of its argument, and the pinned positions lie inside the input vector; outside it the
  source writes out of bounds.
\<close>

theorem Mult_symmetric_elimination:
  assumes su: "massOperator K = Some A"
    and square: "\<forall>v. length (A v) = length v"
    and nonempty: "ess_tdofs_count K \<noteq> 0"
    and inrange: "\<forall>i\<in>pinned K. i < length (h x)"
  shows "(\<exists>K' h'. Mult K x y h = Inr (K', h') \<and> (\<forall>i\<in>pinned K. h' y ! i = 0)) \<and>
         (\<forall>x2. length (h x2) = length (h x) \<and>
               (\<forall>i<length (h x). i \<notin> pinned K \<longrightarrow> h x2 ! i = h x ! i)
               \<longrightarrow> Mult K x2 y h = Mult K x y h)"
proof
  from inrange have r1: "\<forall>j\<in>set (ess_tdofs K). dof_index j < length (h x)"
    by (simp add: pinned_def)
  then obtain dx where dx: "SetSubVector (ess_tdofs K) 0 (h x) = Inr dx"
    using SetSubVector_succeeds by blast
  then have ldx: "length dx = length (h x)" by (rule SetSubVector_length)
  with square have "length (A dx) = length (h x)" by simp
  with r1 have "\<forall>j\<in>set (ess_tdofs K). dof_index j < length (A dx)" by simp
  then obtain yv where yv: "SetSubVector (ess_tdofs K) 0 (A dx) = Inr yv"
    using SetSubVector_succeeds by blast
  have res: "Mult K x y h = Inr (K\<lparr>distX := dx\<rparr>, h(y := yv))"
    using su nonempty dx yv by (simp add: Mult_eq)
  have "\<forall>i\<in>pinned K. yv ! i = 0"
    using SetSubVector_zero_pinned [OF yv] by (auto simp: pinned_def)
  with res show "\<exists>K' h'. Mult K x y h = Inr (K', h') \<and> (\<forall>i\<in>pinned K. h' y ! i = 0)"
    by simp
next
  show "\<forall>x2. length (h x2) = length (h x) \<and>
               (\<forall>i<length (h x). i \<notin> pinned K \<longrightarrow> h x2 ! i = h x ! i)
               \<longrightarrow> Mult K x2 y h = Mult K x y h"
  proof (intro allI impI)
    fix x2
    assume a: "length (h x2) = length (h x) \<and>
               (\<forall>i<length (h x). i \<notin> pinned K \<longrightarrow> h x2 ! i = h x ! i)"
    then have "SetSubVector (ess_tdofs K) 0 (h x2) = SetSubVector (ess_tdofs K) 0 (h x)"
      by (intro SetSubVector_agree) (auto simp: pinned_def)
    with nonempty show "Mult K x2 y h = Mult K x y h"
      by (simp add: Mult_eq)
  qed
qed

theorem Mult_symmetric_elimination_witness:
  "(\<exists>K' h'. Mult \<lparr>ess_tdofs_count = 1, ess_tdofs = [0], massOperator = Some (map ((*) 2)),
                   distX = []\<rparr> 0 2 (empty_heap(0 := [5, 7], 1 := [9, 7])) = Inr (K', h')
            \<and> h' 2 ! 0 = 0) \<and>
   Mult \<lparr>ess_tdofs_count = 1, ess_tdofs = [0], massOperator = Some (map ((*) 2)),
         distX = []\<rparr> 1 2 (empty_heap(0 := [5, 7], 1 := [9, 7])) =
   Mult \<lparr>ess_tdofs_count = 1, ess_tdofs = [0], massOperator = Some (map ((*) 2)),
         distX = []\<rparr> 0 2 (empty_heap(0 := [5, 7], 1 := [9, 7]))"
proof -
  let ?K = "\<lparr>ess_tdofs_count = 1, ess_tdofs = [0], massOperator = Some (map ((*) 2)),
             distX = []\<rparr>"
  let ?h = "empty_heap(0 := [5, 7], 1 := [9, 7])"
  have p: "pinned ?K = {0}"
    by (simp add: pinned_def dof_index_def)
  have a1: "massOperator ?K = Some (map ((*) 2))" by simp
  have a2: "\<forall>v::real list. length (map ((*) 2) v) = length v" by simp
  have a3: "ess_tdofs_count ?K \<noteq> 0" by simp
  have a4: "\<forall>i\<in>pinned ?K. i < length (?h 0)" unfolding p by simp
  note th = Mult_symmetric_elimination [of ?K "map ((*) 2)" ?h 0 2, OF a1 a2 a3 a4]
  from th have c1: "\<exists>K' h'. Mult ?K 0 2 ?h = Inr (K', h') \<and> (\<forall>i\<in>pinned ?K. h' 2 ! i = 0)"
    by (rule conjunct1)
  from th have "\<forall>x2. length (?h x2) = length (?h 0) \<and>
               (\<forall>i<length (?h 0). i \<notin> pinned ?K \<longrightarrow> ?h x2 ! i = ?h 0 ! i)
               \<longrightarrow> Mult ?K x2 2 ?h = Mult ?K 0 2 ?h"
    by (rule conjunct2)
  then have "length (?h 1) = length (?h 0) \<and>
               (\<forall>i<length (?h 0). i \<notin> pinned ?K \<longrightarrow> ?h 1 ! i = ?h 0 ! i)
               \<longrightarrow> Mult ?K 1 2 ?h = Mult ?K 0 2 ?h"
    by (rule spec)
  moreover have "length (?h 1) = length (?h 0) \<and>
               (\<forall>i<length (?h 0). i \<notin> pinned ?K \<longrightarrow> ?h 1 ! i = ?h 0 ! i)"
    unfolding p by (simp add: less_Suc_eq)
  ultimately have c2: "Mult ?K 1 2 ?h = Mult ?K 0 2 ?h" by (rule mp)
  from c1 have "\<exists>K' h'. Mult ?K 0 2 ?h = Inr (K', h') \<and> h' 2 ! 0 = 0"
    unfolding p by simp
  with c2 show ?thesis by (rule conjI [rotated])
qed

text \<open>
  C9 (amended). \<^verbatim>\<open>Mult\<close> writes to the scratch member and to the output vector only:
  every vector of the heap other than the output vector \<open>y\<close> is left as it was, so the
  input \<open>x\<close> is not mutated in any call whose output is another vector than \<open>x\<close>.
\<close>

theorem Mult_frame:
  "Mult K x y h = Inr (K', h') \<Longrightarrow> \<forall>a. a \<noteq> y \<longrightarrow> h' a = h a"
  by (auto simp: Mult_eq split: if_splits sum.splits option.splits)

theorem Mult_frame_witness:
  "Mult \<lparr>ess_tdofs_count = 1, ess_tdofs = [0], massOperator = Some (map ((*) 2)),
         distX = []\<rparr> 0 2 (empty_heap(0 := [5, 7])) =
     Inr (\<lparr>ess_tdofs_count = 1, ess_tdofs = [0], massOperator = Some (map ((*) 2)),
           distX = [0, 7]\<rparr>, empty_heap(0 := [5, 7], 2 := [0, 14])) \<and>
   (empty_heap(0 := [5, 7], 2 := [0, 14])) 0 = (empty_heap(0 := [5, 7])) 0"
proof -
  have r: "Mult \<lparr>ess_tdofs_count = 1, ess_tdofs = [0], massOperator = Some (map ((*) 2)),
         distX = []\<rparr> 0 2 (empty_heap(0 := [5, 7])) =
     Inr (\<lparr>ess_tdofs_count = 1, ess_tdofs = [0], massOperator = Some (map ((*) 2)),
           distX = [0, 7]\<rparr>, empty_heap(0 := [5, 7], 2 := [0, 14]))"
    by (simp add: Mult_eq dof_index_def)
  from Mult_frame [OF r] have "(empty_heap(0 := [5, 7], 2 := [0, 14])) 0 = (empty_heap(0 := [5, 7])) 0"
    by simp
  with r show ?thesis by simp
qed

text \<open>
  The claim as the specification states it fails: when the same vector is passed as
  input and as output, the input is overwritten with the result.
\<close>

theorem Mult_alias_counterexample:
  "Mult \<lparr>ess_tdofs_count = 1, ess_tdofs = [0], massOperator = Some (map ((*) 2)),
         distX = []\<rparr> 0 0 (empty_heap(0 := [5, 7])) =
     Inr (\<lparr>ess_tdofs_count = 1, ess_tdofs = [0], massOperator = Some (map ((*) 2)),
           distX = [0, 7]\<rparr>, empty_heap(0 := [0, 14])) \<and>
   (empty_heap(0 := [0, 14])) 0 \<noteq> (empty_heap(0 := [5, 7])) 0"
  by (simp add: Mult_eq dof_index_def)

text \<open>
  C5 (amended). \<^verbatim>\<open>Mult\<close> has no assertion about \<^verbatim>\<open>massOperator\<close>, and its only
  assertion (the scratch vector has the size of the input) cannot fail. Before
  \<^verbatim>\<open>Setup\<close> the call goes through the null pointer, unless zeroing the pinned entries
  of the scratch copy has already left the vector.
\<close>

theorem Mult_before_Setup:
  "Mult K x y h \<noteq> Inl AssertionFailed \<and>
   (massOperator K = None \<longrightarrow>
      Mult K x y h = Inl NullDereference \<or> Mult K x y h = Inl OutOfBounds)"
  by (auto simp: Mult_eq split: sum.splits option.splits dest: SetSubVector_error)

theorem Mult_before_Setup_witness:
  "massOperator kMassPAOperator_init = None \<and>
   Mult kMassPAOperator_init 0 1 (empty_heap(0 := [1, 2])) \<noteq> Inl AssertionFailed \<and>
   (Mult kMassPAOperator_init 0 1 (empty_heap(0 := [1, 2])) = Inl NullDereference \<or>
    Mult kMassPAOperator_init 0 1 (empty_heap(0 := [1, 2])) = Inl OutOfBounds)"
  using Mult_before_Setup [of kMassPAOperator_init 0 1 "empty_heap(0 := [1, 2])"]
  by (simp add: kMassPAOperator_init_def)

text \<open>
  The claim as the specification states it fails: on a freshly constructed operator the
  call ends in the null dereference, not in an assertion failure.
\<close>

theorem Mult_before_Setup_counterexample:
  "Mult kMassPAOperator_init 0 1 (empty_heap(0 := [1, 2])) = Inl NullDereference \<and>
   Mult kMassPAOperator_init 0 1 (empty_heap(0 := [1, 2])) \<noteq> Inl AssertionFailed"
  by (simp add: Mult_eq kMassPAOperator_init_def)

text \<open>
  C6 (amended). After a first call that recorded a nonempty array, a second call with a
  nonempty array fails its assertion exactly when it carries more dofs than the first; a
  smaller or equal number is accepted and replaces the recorded array.
\<close>

theorem SetEssentialTrueDofs_second_call:
  assumes "SetEssentialTrueDofs o1 dofs1 K0 = Inr K1" "dofs1 \<noteq> []" "dofs2 \<noteq> []"
  shows "SetEssentialTrueDofs o2 dofs2 K1 =
           (if length dofs2 \<le> length dofs1
            then Inr (K1\<lparr>ess_tdofs_count := int (length dofs2), ess_tdofs := dofs2\<rparr>)
            else Inl AssertionFailed)"
  using assms
  by (auto simp: SetEssentialTrueDofs_def Let_def split: if_splits)

theorem SetEssentialTrueDofs_second_call_witness:
  "SetEssentialTrueDofs 0 [0, 1, 2] kMassPAOperator_init =
     Inr \<lparr>ess_tdofs_count = 3, ess_tdofs = [0, 1, 2], massOperator = None, distX = []\<rparr> \<and>
   SetEssentialTrueDofs 0 [0, 1, 2, 3]
       \<lparr>ess_tdofs_count = 3, ess_tdofs = [0, 1, 2], massOperator = None, distX = []\<rparr> =
     Inl AssertionFailed"
proof -
  have f: "SetEssentialTrueDofs 0 [0, 1, 2] kMassPAOperator_init =
     Inr \<lparr>ess_tdofs_count = 3, ess_tdofs = [0, 1, 2], massOperator = None, distX = []\<rparr>"
    by (simp add: SetEssentialTrueDofs_def kMassPAOperator_init_def SetSize_def)
  from SetEssentialTrueDofs_second_call [OF f, of "[0, 1, 2, 3]" 0] f
  show ?thesis by simp
qed

text \<open>
  The claim as the specification states it fails: after three dofs were recorded, a
  second call with two dofs is accepted.
\<close>

theorem SetEssentialTrueDofs_smaller_counterexample:
  "SetEssentialTrueDofs 0 [0, 1, 2] kMassPAOperator_init =
     Inr \<lparr>ess_tdofs_count = 3, ess_tdofs = [0, 1, 2], massOperator = None, distX = []\<rparr> \<and>
   SetEssentialTrueDofs 0 [4, 5]
       \<lparr>ess_tdofs_count = 3, ess_tdofs = [0, 1, 2], massOperator = None, distX = []\<rparr> =
     Inr \<lparr>ess_tdofs_count = 2, ess_tdofs = [4, 5], massOperator = None, distX = []\<rparr>"
  by (simp add: SetEssentialTrueDofs_def kMassPAOperator_init_def SetSize_def)

section \<open>Properties of the time-stepping loop\<close>

lemma pre_step_fields:
  "S (pre_step D st) = S st"
  "t (pre_step D st) = t st"
  "S_old (pre_step D st) = S st"
  "t_old (pre_step D st) = t st"
  "steps (pre_step D st) = steps st"
  "ti (pre_step D st) = ti st"
  "dt (pre_step D st) = (if t st + dt st \<ge> t_final D then t_final D - t st else dt st)"
  "last_step (pre_step D st) =
     (last_step st \<or> t st + dt st \<ge> t_final D \<or> steps st = max_tsteps D)"
  by (simp_all add: pre_step_def Let_def)

lemma attempt_fields:
  "dt (fst (attempt D p)) = dt p"
  "S_old (fst (attempt D p)) = S_old p"
  "t_old (fst (attempt D p)) = t_old p"
  "last_step (fst (attempt D p)) = last_step p"
  "steps (fst (attempt D p)) = steps p + 1"
  "ti (fst (attempt D p)) = ti p"
  by (simp_all add: attempt_def Let_def split: prod.splits)

lemma iteration_eq:
  "iteration D st =
     (case control D (fst (attempt D (pre_step D st))) (new_estimate D st) of
        Inl e \<Rightarrow> Inl e
      | Inr st2 \<Rightarrow> Inr (st2\<lparr>ti := ti st2 + 1\<rparr>))"
  by (simp add: iteration_def new_estimate_def split: prod.splits)

lemma iteration_rejected:
  assumes "rejected D st"
  shows "iteration D st =
     (if used_dt D st * 0.85 < epsilon then Inl TimeStepCrashed
      else Inr ((fst (attempt D (pre_step D st)))
                 \<lparr>dt := used_dt D st * 0.85, t := t st, S := S st,
                  hydro := ResetQuadratureData D (hydro (fst (attempt D (pre_step D st)))),
                  last_step := last_step (pre_step D st) \<and> \<not> steps st + 1 < max_tsteps D,
                  ti := ti st\<rparr>))"
  using assms
  by (simp add: iteration_eq control_def rejected_def used_dt_def Let_def
      attempt_fields pre_step_fields)

lemma iteration_accepted:
  assumes "\<not> rejected D st"
  shows "iteration D st =
     Inr ((fst (attempt D (pre_step D st)))
           \<lparr>dt := (if new_estimate D st > 1.25 * used_dt D st
                   then used_dt D st * 1.02 else used_dt D st),
            ti := ti st + 1\<rparr>)"
  using assms
  by (simp add: iteration_eq control_def rejected_def used_dt_def Let_def
      attempt_fields pre_step_fields)

lemma attempt_result:
  "S (fst (attempt D p)) = fst (ode_Step D (hydro p) (S p) (t p) (dt p))"
  "t (fst (attempt D p)) = fst (snd (ode_Step D (hydro p) (S p) (t p) (dt p)))"
  by (simp_all add: attempt_def Let_def split: prod.splits)

lemma pre_step_hydro: "hydro (pre_step D st) = ResetTimeStepEstimate D (hydro st)"
  by (simp add: pre_step_def Let_def)

lemma epsilon_pos: "0 < epsilon"
  by (simp add: epsilon_def)

lemma rejected_pass_restores:
  "rejected D st \<Longrightarrow> iteration D st = Inr st1 \<Longrightarrow> S st1 = S st \<and> t st1 = t st"
  by (auto simp: iteration_rejected split: if_splits)

lemma rejections_restore:
  "rejections D st st2 \<Longrightarrow> S st2 = S st \<and> t st2 = t st"
  by (induction rule: rejections.induct) (auto dest: rejected_pass_restores)

lemma shrunken_dt_used:
  assumes "\<not> used_dt D st * 0.85 < epsilon"
    and "dt st1 = used_dt D st * 0.85" and "t st1 = t st"
  shows "used_dt D st1 = used_dt D st * 0.85"
proof -
  from assms(1) epsilon_pos have pos: "0 < used_dt D st" by simp
  show ?thesis
  proof (cases "t st + dt st \<ge> t_final D")
    case True
    with pos have "0 < t_final D - t st" by (simp add: used_dt_def pre_step_fields)
    with True assms(2,3) show ?thesis by (simp add: used_dt_def pre_step_fields)
  next
    case False
    with pos have "0 < dt st" by (simp add: used_dt_def pre_step_fields)
    with False assms(2,3) show ?thesis by (simp add: used_dt_def pre_step_fields)
  qed
qed

lemma reach_trans:
  "st2 \<in> reach D st1 \<Longrightarrow> st1 \<in> reach D st \<Longrightarrow> st2 \<in> reach D st"
  by (induction rule: reach.induct) (auto intro: reach.intros)

lemma reach_successor:
  assumes "\<not> last_step st" and "iteration D st = Inr st1"
  shows "reach D st1 \<subseteq> reach D st"
proof
  fix x assume "x \<in> reach D st1"
  moreover have "st1 \<in> reach D st"
    using assms by (blast intro: reach.intros)
  ultimately show "x \<in> reach D st" by (rule reach_trans)
qed

lemma all_rejected_aborts_within:
  "\<forall>st'\<in>reach D st. \<not> last_step st' \<longrightarrow> rejected D st' \<Longrightarrow>
   \<not> last_step st \<Longrightarrow> max_tsteps D < steps st \<Longrightarrow> t st + dt st < t_final D \<Longrightarrow>
   dt st * 0.85 ^ Suc k < epsilon \<Longrightarrow>
   \<exists>n \<le> Suc k. time_loop n D st = Some (Inl TimeStepCrashed)"
proof (induction k arbitrary: st)
  case 0
  have rej: "rejected D st"
    using "0.prems"(1,2) by (blast intro: reach.intros)
  have u: "used_dt D st = dt st"
    using "0.prems"(4) by (simp add: used_dt_def pre_step_fields)
  have "iteration D st = Inl TimeStepCrashed"
    using rej u "0.prems"(5) by (simp add: iteration_rejected)
  then have "time_loop (Suc 0) D st = Some (Inl TimeStepCrashed)"
    using "0.prems"(2) by simp
  then show ?case by blast
next
  case (Suc k)
  have rej: "rejected D st"
    using Suc.prems(1,2) by (blast intro: reach.intros)
  have u: "used_dt D st = dt st"
    using Suc.prems(4) by (simp add: used_dt_def pre_step_fields)
  show ?case
  proof (cases "dt st * 0.85 < epsilon")
    case True
    then have "iteration D st = Inl TimeStepCrashed"
      using rej u by (simp add: iteration_rejected)
    then have "time_loop (Suc 0) D st = Some (Inl TimeStepCrashed)"
      using Suc.prems(2) by simp
    then show ?thesis by (intro exI [of _ "Suc 0"]) simp
  next
    case False
    let ?st1 = "(fst (attempt D (pre_step D st)))
                 \<lparr>dt := used_dt D st * 0.85, t := t st, S := S st,
                  hydro := ResetQuadratureData D (hydro (fst (attempt D (pre_step D st)))),
                  last_step := last_step (pre_step D st) \<and> \<not> steps st + 1 < max_tsteps D,
                  ti := ti st\<rparr>"
    have it: "iteration D st = Inr ?st1"
      using rej u False by (simp add: iteration_rejected)
    from False epsilon_pos have pos: "0 < dt st" by simp
    have nl: "\<not> last_step (pre_step D st)"
      using Suc.prems(2,3,4) by (simp add: pre_step_fields)
    have "\<exists>n \<le> Suc k. time_loop n D ?st1 = Some (Inl TimeStepCrashed)"
    proof (rule Suc.IH)
      show "\<forall>st'\<in>reach D ?st1. \<not> last_step st' \<longrightarrow> rejected D st'"
        using Suc.prems(1) reach_successor [OF Suc.prems(2) it] by blast
      show "\<not> last_step ?st1" using nl by simp
      show "max_tsteps D < steps ?st1"
        using Suc.prems(3) by (simp add: attempt_fields pre_step_fields)
      show "t ?st1 + dt ?st1 < t_final D"
        using Suc.prems(4) pos u by simp
      show "dt ?st1 * 0.85 ^ Suc k < epsilon"
        using Suc.prems(5) u by (simp add: mult.assoc)
    qed
    then obtain n where n: "n \<le> Suc k" "time_loop n D ?st1 = Some (Inl TimeStepCrashed)"
      by blast
    have "time_loop (Suc n) D st = Some (Inl TimeStepCrashed)"
      using Suc.prems(2) it n(2) by simp
    with n(1) show ?thesis by (intro exI [of _ "Suc n"]) simp
  qed
qed

lemma shrink_below_epsilon: "\<exists>k. (d::real) * 0.85 ^ Suc k < epsilon"
proof (cases "d \<le> 0")
  case True
  have "d * 0.85 ^ Suc 0 \<le> 0" using True by (simp add: mult_le_0_iff)
  with epsilon_pos have "d * 0.85 ^ Suc 0 < epsilon" by linarith
  then show ?thesis by blast
next
  case False
  then have d: "0 < d" by simp
  with epsilon_pos have "0 < epsilon / d" by simp
  then obtain k where "(0.85::real) ^ k < epsilon / d"
    using real_arch_pow_inv [of "epsilon / d" "0.85"] by auto
  with d have k: "d * 0.85 ^ k < epsilon" by (simp add: pos_less_divide_eq mult.commute)
  have "d * 0.85 ^ Suc k \<le> d * 0.85 ^ k"
    using d by (simp add: mult_left_le)
  with k have "d * 0.85 ^ Suc k < epsilon" by linarith
  then show ?thesis by blast
qed

lemma all_rejected_ends_within:
  "\<forall>st'\<in>reach D st. \<not> last_step st' \<longrightarrow> rejected D st' \<Longrightarrow>
   used_dt D st * 0.85 ^ Suc k < epsilon \<Longrightarrow>
   \<exists>n \<le> Suc k. \<exists>r. time_loop n D st = Some r"
proof (induction k arbitrary: st)
  case 0
  show ?case
  proof (cases "last_step st")
    case True
    then have "time_loop 0 D st = Some (Inr st)" by simp
    then show ?thesis by blast
  next
    case False
    then have rej: "rejected D st"
      using "0.prems"(1) by (blast intro: reach.intros)
    have "iteration D st = Inl TimeStepCrashed"
      using rej "0.prems"(2) by (simp add: iteration_rejected)
    then have "time_loop (Suc 0) D st = Some (Inl TimeStepCrashed)"
      using False by simp
    then show ?thesis by blast
  qed
next
  case (Suc k)
  show ?case
  proof (cases "last_step st")
    case True
    then have "time_loop 0 D st = Some (Inr st)" by simp
    then show ?thesis by blast
  next
    case False
    then have rej: "rejected D st"
      using Suc.prems(1) by (blast intro: reach.intros)
    show ?thesis
    proof (cases "used_dt D st * 0.85 < epsilon")
      case True
      then have "iteration D st = Inl TimeStepCrashed"
        using rej by (simp add: iteration_rejected)
      then have "time_loop (Suc 0) D st = Some (Inl TimeStepCrashed)"
        using \<open>\<not> last_step st\<close> by simp
      then show ?thesis by (intro exI [of _ "Suc 0"]) simp
    next
      case noabort: False
      let ?st1 = "(fst (attempt D (pre_step D st)))
                 \<lparr>dt := used_dt D st * 0.85, t := t st, S := S st,
                  hydro := ResetQuadratureData D (hydro (fst (attempt D (pre_step D st)))),
                  last_step := last_step (pre_step D st) \<and> \<not> steps st + 1 < max_tsteps D,
                  ti := ti st\<rparr>"
      have it: "iteration D st = Inr ?st1"
        using rej noabort by (simp add: iteration_rejected)
      have u: "used_dt D ?st1 = used_dt D st * 0.85"
      proof (rule shrunken_dt_used [OF noabort])
        show "dt ?st1 = used_dt D st * 0.85" by simp
        show "t ?st1 = t st" by simp
      qed
      have "\<exists>n \<le> Suc k. \<exists>r. time_loop n D ?st1 = Some r"
      proof (rule Suc.IH)
        show "\<forall>st'\<in>reach D ?st1. \<not> last_step st' \<longrightarrow> rejected D st'"
          using Suc.prems(1) reach_successor [OF \<open>\<not> last_step st\<close> it] by blast
        show "used_dt D ?st1 * 0.85 ^ Suc k < epsilon"
          unfolding u using Suc.prems(2) by (simp add: mult.assoc)
      qed
      then obtain n r where n: "n \<le> Suc k" "time_loop n D ?st1 = Some r" by blast
      have "time_loop (Suc n) D st = Some r"
        using \<open>\<not> last_step st\<close> it n(2) by simp
      with n(1) show ?thesis by (intro exI [of _ "Suc n"]) auto
    qed
  qed
qed

text \<open>Unfolding the sample configuration and a pass of the loop on explicit inputs.\<close>

lemmas sample_defs = sample_driver_def sample_Step_def sample_estimate_def sample_reset_def
  fixed_estimate_def lower_estimate_def

lemmas pass_defs = iteration_def attempt_def pre_step_def control_def epsilon_def Let_def
  rejected_def new_estimate_def used_dt_def

text \<open>
  C4. The decision after an attempt is a first match on the new estimate. If the estimate
  is below the step size used, the pass is a rejection: the step size becomes 0.85 times
  the one used, the state vector, the time and the iteration index are those before the
  attempt (and the run aborts instead when the shrunken step size is below epsilon).
  Otherwise, if the estimate is above 1.25 times the step size used, the step is accepted
  (the state vector is the one the solver returned, the index advances) and the step size
  is multiplied by 1.02. Otherwise the step is accepted and the step size is unchanged.
\<close>

theorem step_size_decision:
  "(new_estimate D st < used_dt D st \<longrightarrow>
      (if used_dt D st * 0.85 < epsilon then iteration D st = Inl TimeStepCrashed
       else \<exists>st'. iteration D st = Inr st' \<and> dt st' = used_dt D st * 0.85 \<and>
                  S st' = S st \<and> t st' = t st \<and> ti st' = ti st)) \<and>
   (\<not> new_estimate D st < used_dt D st \<and> new_estimate D st > 1.25 * used_dt D st \<longrightarrow>
      (\<exists>st'. iteration D st = Inr st' \<and> dt st' = used_dt D st * 1.02 \<and>
             S st' = fst (ode_Step D (ResetTimeStepEstimate D (hydro st)) (S st) (t st)
                           (used_dt D st)) \<and>
             ti st' = ti st + 1)) \<and>
   (\<not> new_estimate D st < used_dt D st \<and> \<not> new_estimate D st > 1.25 * used_dt D st \<longrightarrow>
      (\<exists>st'. iteration D st = Inr st' \<and> dt st' = used_dt D st \<and>
             S st' = fst (ode_Step D (ResetTimeStepEstimate D (hydro st)) (S st) (t st)
                           (used_dt D st)) \<and>
             ti st' = ti st + 1))"
proof (intro conjI impI)
  assume "new_estimate D st < used_dt D st"
  then have "rejected D st" by (simp add: rejected_def)
  then show "if used_dt D st * 0.85 < epsilon then iteration D st = Inl TimeStepCrashed
       else \<exists>st'. iteration D st = Inr st' \<and> dt st' = used_dt D st * 0.85 \<and>
                  S st' = S st \<and> t st' = t st \<and> ti st' = ti st"
    by (simp add: iteration_rejected)
next
  assume "\<not> new_estimate D st < used_dt D st \<and> new_estimate D st > 1.25 * used_dt D st"
  then have "\<not> rejected D st" and "new_estimate D st > 1.25 * used_dt D st"
    by (simp_all add: rejected_def)
  then show "\<exists>st'. iteration D st = Inr st' \<and> dt st' = used_dt D st * 1.02 \<and>
             S st' = fst (ode_Step D (ResetTimeStepEstimate D (hydro st)) (S st) (t st)
                           (used_dt D st)) \<and>
             ti st' = ti st + 1"
    by (simp add: iteration_accepted attempt_result pre_step_fields pre_step_hydro used_dt_def)
next
  assume "\<not> new_estimate D st < used_dt D st \<and> \<not> new_estimate D st > 1.25 * used_dt D st"
  then have "\<not> rejected D st" and "\<not> new_estimate D st > 1.25 * used_dt D st"
    by (simp_all add: rejected_def)
  then show "\<exists>st'. iteration D st = Inr st' \<and> dt st' = used_dt D st \<and>
             S st' = fst (ode_Step D (ResetTimeStepEstimate D (hydro st)) (S st) (t st)
                           (used_dt D st)) \<and>
             ti st' = ti st + 1"
    by (simp add: iteration_accepted attempt_result pre_step_fields pre_step_hydro used_dt_def)
qed

theorem step_size_decision_witness:
  "(\<exists>st'. iteration (sample_driver 10 (- 1) (fixed_estimate (1 / 2)))
            \<lparr>S = 0, S_old = 0, t = 0, t_old = 0, dt = 1, last_step = False, steps = 0,
             ti = 1, hydro = 0\<rparr> = Inr st' \<and> dt st' = 1 * 0.85 \<and> S st' = 0) \<and>
   (\<exists>st'. iteration (sample_driver 10 (- 1) (fixed_estimate 2))
            \<lparr>S = 0, S_old = 0, t = 0, t_old = 0, dt = 1, last_step = False, steps = 0,
             ti = 1, hydro = 0\<rparr> = Inr st' \<and> dt st' = 1 * 1.02 \<and> S st' = 1) \<and>
   (\<exists>st'. iteration (sample_driver 10 (- 1) (fixed_estimate 1))
            \<lparr>S = 0, S_old = 0, t = 0, t_old = 0, dt = 1, last_step = False, steps = 0,
             ti = 1, hydro = 0\<rparr> = Inr st' \<and> dt st' = 1 \<and> S st' = 1)"
proof -
  let ?st = "\<lparr>S = 0::real, S_old = 0, t = 0, t_old = 0, dt = 1, last_step = False,
              steps = 0, ti = 1, hydro = 0::real\<rparr>"
  let ?Dr = "sample_driver 10 (- 1) (fixed_estimate (1 / 2))"
  let ?Dg = "sample_driver 10 (- 1) (fixed_estimate 2)"
  let ?Dk = "sample_driver 10 (- 1) (fixed_estimate 1)"
  have u: "used_dt ?Dr ?st = 1" "used_dt ?Dg ?st = 1" "used_dt ?Dk ?st = 1"
    by (simp_all add: sample_defs pass_defs)
  have e: "new_estimate ?Dr ?st = 1 / 2" "new_estimate ?Dg ?st = 2" "new_estimate ?Dk ?st = 1"
    by (simp_all add: sample_defs pass_defs)
  have eps: "\<not> (1::real) * 0.85 < epsilon" by (simp add: epsilon_def)
  have r: "\<exists>st'. iteration ?Dr ?st = Inr st' \<and> dt st' = 1 * 0.85 \<and> S st' = 0"
    using step_size_decision [of ?Dr ?st] eps unfolding u e by auto
  have g: "\<exists>st'. iteration ?Dg ?st = Inr st' \<and> dt st' = 1 * 1.02 \<and> S st' = 1"
    using step_size_decision [of ?Dg ?st] unfolding u e
    by (auto simp: sample_defs)
  have k: "\<exists>st'. iteration ?Dk ?st = Inr st' \<and> dt st' = 1 \<and> S st' = 1"
    using step_size_decision [of ?Dk ?st] unfolding u e
    by (auto simp: sample_defs)
  from r g k show ?thesis by (intro conjI)
qed

text \<open>
  C7 (amended). Every pass that does not abort increments the step counter exactly once,
  rejected or accepted: the counter counts the calls of the solver. A rejected pass
  leaves the iteration index as it was; an accepted pass increments it by one.
\<close>

theorem counters_per_pass:
  "iteration D st = Inr st' \<Longrightarrow>
     steps st' = steps st + 1 \<and> ti st' = (if rejected D st then ti st else ti st + 1)"
  by (cases "rejected D st")
     (auto simp: iteration_rejected iteration_accepted attempt_fields pre_step_fields
           split: if_splits)

theorem counters_per_pass_witness:
  "iteration (sample_driver 10 (- 1) (fixed_estimate 1))
     \<lparr>S = 0, S_old = 0, t = 0, t_old = 0, dt = 1, last_step = False, steps = 0, ti = 1,
      hydro = 0\<rparr> =
   Inr \<lparr>S = 1, S_old = 0, t = 1, t_old = 0, dt = 1, last_step = False, steps = 1, ti = 2,
        hydro = 1\<rparr> \<and>
   steps \<lparr>S = 1::real, S_old = 0, t = 1, t_old = 0, dt = 1, last_step = False, steps = 1,
          ti = 2, hydro = 1::real\<rparr> = 0 + 1"
proof -
  have i: "iteration (sample_driver 10 (- 1) (fixed_estimate 1))
     \<lparr>S = 0, S_old = 0, t = 0, t_old = 0, dt = 1, last_step = False, steps = 0, ti = 1,
      hydro = 0\<rparr> =
   Inr \<lparr>S = 1, S_old = 0, t = 1, t_old = 0, dt = 1, last_step = False, steps = 1, ti = 2,
        hydro = 1\<rparr>"
    by (simp add: sample_defs pass_defs)
  from counters_per_pass [OF i] i show ?thesis by simp
qed

text \<open>
  The claim as the specification states it fails: a rejected attempt takes the step
  counter from 0 to 1.
\<close>

theorem counters_per_pass_counterexample:
  "rejected (sample_driver 10 (- 1) (fixed_estimate (1 / 2)))
     \<lparr>S = 0, S_old = 0, t = 0, t_old = 0, dt = 1, last_step = False, steps = 0, ti = 1,
      hydro = 0\<rparr> \<and>
   iteration (sample_driver 10 (- 1) (fixed_estimate (1 / 2)))
     \<lparr>S = 0, S_old = 0, t = 0, t_old = 0, dt = 1, last_step = False, steps = 0, ti = 1,
      hydro = 0\<rparr> =
   Inr \<lparr>S = 0, S_old = 0, t = 0, t_old = 0, dt = 0.85, last_step = False, steps = 1, ti = 1,
        hydro = 0\<rparr>"
  by (simp add: sample_defs pass_defs)

text \<open>
  C10 (amended). With no step limit (\<open>max_tsteps\<close> negative) and a pass marked as the
  last step by the clamp at the final time, a rejection whose shrunken step size is not
  below epsilon leaves the loop at once, with the state vector and the time restored and
  the shrunken step size never tried.
\<close>

theorem last_step_rejection_exits:
  assumes "max_tsteps D < 0" and "0 \<le> steps st" and "\<not> last_step st"
    and "t st + dt st \<ge> t_final D" and "rejected D st"
    and "\<not> (t_final D - t st) * 0.85 < epsilon"
  shows "\<exists>st'. iteration D st = Inr st' \<and> S st' = S st \<and> t st' = t st \<and>
               dt st' = (t_final D - t st) * 0.85 \<and> last_step st' \<and>
               (\<forall>n. time_loop (Suc n) D st = Some (Inr st'))"
proof -
  from assms(4) have u: "used_dt D st = t_final D - t st"
    by (simp add: used_dt_def pre_step_fields)
  from assms(4) have l: "last_step (pre_step D st)"
    by (simp add: pre_step_fields)
  from assms(1,2) have s: "\<not> steps st + 1 < max_tsteps D" by simp
  let ?st' = "(fst (attempt D (pre_step D st)))
                 \<lparr>dt := used_dt D st * 0.85, t := t st, S := S st,
                  hydro := ResetQuadratureData D (hydro (fst (attempt D (pre_step D st)))),
                  last_step := last_step (pre_step D st) \<and> \<not> steps st + 1 < max_tsteps D,
                  ti := ti st\<rparr>"
  have it: "iteration D st = Inr ?st'"
    using assms(5,6) u by (simp add: iteration_rejected)
  have ls: "last_step ?st'" using l s by simp
  have "\<forall>n. time_loop (Suc n) D st = Some (Inr ?st')"
  proof
    fix n
    have "time_loop (Suc n) D st = time_loop n D ?st'"
      using assms(3) it by simp
    also have "\<dots> = Some (Inr ?st')"
      using ls by (cases n) simp_all
    finally show "time_loop (Suc n) D st = Some (Inr ?st')" .
  qed
  with it ls u show ?thesis by simp
qed

theorem last_step_rejection_exits_witness:
  "\<exists>st'. iteration (sample_driver 1 (- 1) (fixed_estimate (1 / 4)))
            \<lparr>S = 0, S_old = 0, t = 0, t_old = 0, dt = 5, last_step = False, steps = 0,
             ti = 1, hydro = 0\<rparr> = Inr st' \<and> S st' = 0 \<and> t st' = 0 \<and>
          dt st' = (1 - 0) * 0.85 \<and> last_step st' \<and>
          (\<forall>n. time_loop (Suc n) (sample_driver 1 (- 1) (fixed_estimate (1 / 4)))
            \<lparr>S = 0, S_old = 0, t = 0, t_old = 0, dt = 5, last_step = False, steps = 0,
             ti = 1, hydro = 0\<rparr> = Some (Inr st'))"
proof -
  let ?st = "\<lparr>S = 0::real, S_old = 0, t = 0, t_old = 0, dt = 5, last_step = False,
              steps = 0, ti = 1, hydro = 0::real\<rparr>"
  let ?D = "sample_driver 1 (- 1) (fixed_estimate (1 / 4))"
  have h1: "max_tsteps ?D < 0" by (simp add: sample_defs)
  have h2: "0 \<le> steps ?st" by simp
  have h3: "\<not> last_step ?st" by simp
  have h4: "t ?st + dt ?st \<ge> t_final ?D" by (simp add: sample_defs)
  have h5: "rejected ?D ?st" by (simp add: sample_defs pass_defs)
  have h6: "\<not> (t_final ?D - t ?st) * 0.85 < epsilon" by (simp add: sample_defs epsilon_def)
  from last_step_rejection_exits [OF h1 h2 h3 h4 h5 h6]
  show ?thesis by (simp add: sample_driver_def)
qed

text \<open>
  The claim as the specification states it fails when the clamped step size is so small
  that its shrunken value is below epsilon: the run aborts, nothing is restored.
\<close>

theorem last_step_rejection_counterexample:
  "max_tsteps (sample_driver epsilon (- 1) (fixed_estimate 0)) < 0 \<and>
   t_final (sample_driver epsilon (- 1) (fixed_estimate 0)) \<le> 0 + 1 \<and>
   rejected (sample_driver epsilon (- 1) (fixed_estimate 0))
     \<lparr>S = 0, S_old = 0, t = 0, t_old = 0, dt = 1, last_step = False, steps = 0, ti = 1,
      hydro = 0\<rparr> \<and>
   time_loop 1 (sample_driver epsilon (- 1) (fixed_estimate 0))
     \<lparr>S = 0, S_old = 0, t = 0, t_old = 0, dt = 1, last_step = False, steps = 0, ti = 1,
      hydro = 0\<rparr> = Some (Inl TimeStepCrashed)"
  by (simp add: sample_defs pass_defs)

text \<open>
  C1 (amended). A rejected attempt whose shrunken step size is not below epsilon restores
  the state vector and the time to the values saved before the attempt, resets the
  quadrature data of the operator, keeps the iteration index and sets the step size to
  0.85 times the one used, which is the step size the next pass uses as it is. If the
  pass was not marked as the last step, or the step counter is still below
  \<open>max_tsteps\<close>, the loop goes on with that retry. After any sequence of rejections the
  state vector and the time are still those before the first attempt, and an accepted
  attempt that follows yields the saved state vector advanced by the retried step.
\<close>

theorem rejection_rollback:
  assumes rej: "rejected D st" and noabort: "\<not> used_dt D st * 0.85 < epsilon"
  shows "\<exists>st1. iteration D st = Inr st1 \<and> S st1 = S st \<and> t st1 = t st \<and>
           dt st1 = used_dt D st * 0.85 \<and> used_dt D st1 = used_dt D st * 0.85 \<and>
           ti st1 = ti st \<and>
           hydro st1 = ResetQuadratureData D (hydro (fst (attempt D (pre_step D st)))) \<and>
           (\<not> last_step (pre_step D st) \<or> steps st + 1 < max_tsteps D
              \<longrightarrow> \<not> last_step st1) \<and>
           (\<forall>st2. rejections D st st2 \<longrightarrow>
              S st2 = S st \<and> t st2 = t st \<and>
              (\<forall>st3. \<not> rejected D st2 \<and> iteration D st2 = Inr st3 \<longrightarrow>
                 S st3 = fst (ode_Step D (ResetTimeStepEstimate D (hydro st2)) (S st) (t st)
                               (used_dt D st2))))"
proof -
  let ?st1 = "(fst (attempt D (pre_step D st)))
                 \<lparr>dt := used_dt D st * 0.85, t := t st, S := S st,
                  hydro := ResetQuadratureData D (hydro (fst (attempt D (pre_step D st)))),
                  last_step := last_step (pre_step D st) \<and> \<not> steps st + 1 < max_tsteps D,
                  ti := ti st\<rparr>"
  have it: "iteration D st = Inr ?st1"
    using rej noabort by (simp add: iteration_rejected)
  have u: "used_dt D ?st1 = used_dt D st * 0.85"
  proof (rule shrunken_dt_used [OF noabort])
    show "dt ?st1 = used_dt D st * 0.85" by simp
    show "t ?st1 = t st" by simp
  qed
  have seq: "\<forall>st2. rejections D st st2 \<longrightarrow>
              S st2 = S st \<and> t st2 = t st \<and>
              (\<forall>st3. \<not> rejected D st2 \<and> iteration D st2 = Inr st3 \<longrightarrow>
                 S st3 = fst (ode_Step D (ResetTimeStepEstimate D (hydro st2)) (S st) (t st)
                               (used_dt D st2)))"
  proof (intro allI impI conjI)
    fix st2 assume r: "rejections D st st2"
    then show "S st2 = S st" and "t st2 = t st"
      by (simp_all add: rejections_restore)
    fix st3 assume "\<not> rejected D st2 \<and> iteration D st2 = Inr st3"
    then have "S st3 = S (fst (attempt D (pre_step D st2)))"
      by (auto simp: iteration_accepted)
    also have "\<dots> = fst (ode_Step D (ResetTimeStepEstimate D (hydro st2)) (S st2) (t st2)
                               (used_dt D st2))"
      by (simp add: attempt_result pre_step_fields pre_step_hydro used_dt_def)
    finally show "S st3 = fst (ode_Step D (ResetTimeStepEstimate D (hydro st2)) (S st) (t st)
                               (used_dt D st2))"
      using r by (simp add: rejections_restore)
  qed
  have f1: "S ?st1 = S st" "t ?st1 = t st" "dt ?st1 = used_dt D st * 0.85" "ti ?st1 = ti st"
    by simp_all
  have f2: "hydro ?st1 = ResetQuadratureData D (hydro (fst (attempt D (pre_step D st))))"
    by simp
  have f3: "\<not> last_step (pre_step D st) \<or> steps st + 1 < max_tsteps D
              \<longrightarrow> \<not> last_step ?st1"
    by simp
  show ?thesis
    by (rule exI [of _ ?st1]) (intro conjI it f1 u f2 f3 seq)
qed

theorem rejection_rollback_witness:
  "iteration (sample_driver 10 (- 1) (fixed_estimate (9 / 10)))
     \<lparr>S = 0, S_old = 0, t = 0, t_old = 0, dt = 1, last_step = False, steps = 0, ti = 1,
      hydro = 0\<rparr> =
   Inr \<lparr>S = 0, S_old = 0, t = 0, t_old = 0, dt = 0.85, last_step = False, steps = 1, ti = 1,
        hydro = 0\<rparr> \<and>
   iteration (sample_driver 10 (- 1) (fixed_estimate (9 / 10)))
     \<lparr>S = 0, S_old = 0, t = 0, t_old = 0, dt = 0.85, last_step = False, steps = 1, ti = 1,
      hydro = 0\<rparr> =
   Inr \<lparr>S = 0.85, S_old = 0, t = 0.85, t_old = 0, dt = 0.85, last_step = False, steps = 2,
        ti = 2, hydro = 0.85\<rparr> \<and>
   S \<lparr>S = 0.85 :: real, S_old = 0, t = 0.85, t_old = 0, dt = 0.85, last_step = False,
      steps = 2, ti = 2, hydro = 0.85 :: real\<rparr> = fst (sample_Step 0 0 0 0.85)"
proof -
  let ?st = "\<lparr>S = 0::real, S_old = 0, t = 0, t_old = 0, dt = 1, last_step = False,
              steps = 0, ti = 1, hydro = 0::real\<rparr>"
  let ?st1 = "\<lparr>S = 0::real, S_old = 0, t = 0, t_old = 0, dt = 0.85, last_step = False,
               steps = 1, ti = 1, hydro = 0::real\<rparr>"
  let ?st3 = "\<lparr>S = 0.85::real, S_old = 0, t = 0.85, t_old = 0, dt = 0.85, last_step = False,
               steps = 2, ti = 2, hydro = 0.85::real\<rparr>"
  let ?D = "sample_driver 10 (- 1) (fixed_estimate (9 / 10))"
  have u: "used_dt ?D ?st = 1" "used_dt ?D ?st1 = 0.85"
    by (simp_all add: sample_defs pass_defs)
  have h1: "rejected ?D ?st" by (simp add: sample_defs pass_defs)
  have h2: "\<not> used_dt ?D ?st * 0.85 < epsilon" unfolding u by (simp add: epsilon_def)
  have it: "iteration ?D ?st = Inr ?st1" by (simp add: sample_defs pass_defs)
  have acc: "\<not> rejected ?D ?st1" by (simp add: sample_defs pass_defs)
  have it2: "iteration ?D ?st1 = Inr ?st3" by (simp add: sample_defs pass_defs)
  have r: "rejections ?D ?st ?st1" using h1 it by (rule rejections_one)
  from rejection_rollback [OF h1 h2]
  have "\<forall>st2. rejections ?D ?st st2 \<longrightarrow>
              S st2 = S ?st \<and> t st2 = t ?st \<and>
              (\<forall>st3. \<not> rejected ?D st2 \<and> iteration ?D st2 = Inr st3 \<longrightarrow>
                 S st3 = fst (ode_Step ?D (ResetTimeStepEstimate ?D (hydro st2)) (S ?st) (t ?st)
                               (used_dt ?D st2)))"
    by blast
  with r acc it2 have "S ?st3 = fst (ode_Step ?D (ResetTimeStepEstimate ?D (hydro ?st1)) (S ?st)
                               (t ?st) (used_dt ?D ?st1))"
    by blast
  then have "S ?st3 = fst (sample_Step 0 0 0 0.85)"
    unfolding u by (simp add: sample_driver_def)
  with it it2 show ?thesis by (intro conjI)
qed

text \<open>
  The claim as the specification states it fails: with a step limit of 1 and one step
  taken, the pass is marked as the last step, its attempt is rejected, and the loop is
  left with the saved state and no retry.
\<close>

theorem rejection_at_limit_counterexample:
  "rejected (sample_driver 10 1 (fixed_estimate (1 / 2)))
     \<lparr>S = 1, S_old = 0, t = 1, t_old = 0, dt = 1, last_step = False, steps = 1, ti = 2,
      hydro = 1\<rparr> \<and>
   time_loop 2 (sample_driver 10 1 (fixed_estimate (1 / 2)))
     \<lparr>S = 1, S_old = 0, t = 1, t_old = 0, dt = 1, last_step = False, steps = 1, ti = 2,
      hydro = 1\<rparr> =
   Some (Inr \<lparr>S = 1, S_old = 1, t = 1, t_old = 1, dt = 0.85, last_step = True, steps = 2,
              ti = 2, hydro = 0\<rparr>)"
  by (simp add: sample_defs pass_defs numeral_2_eq_2)

text \<open>
  C3 (amended). In a run where every attempt is rejected the loop ends after finitely
  many passes. When moreover no pass can be marked as the last step (the step limit
  cannot be reached and the first attempt is not clamped to the final time), each
  rejection multiplies the step size by 0.85 and the run ends in the abort
  \<open>TimeStepCrashed\<close>.
\<close>

theorem all_rejected_ends:
  assumes "\<forall>st'\<in>reach D st. \<not> last_step st' \<longrightarrow> rejected D st'"
  shows "(\<exists>n r. time_loop n D st = Some r) \<and>
         (\<not> last_step st \<and> max_tsteps D < steps st \<and> t st + dt st < t_final D \<longrightarrow>
            (\<exists>n. time_loop n D st = Some (Inl TimeStepCrashed)))"
proof
  obtain k where "used_dt D st * 0.85 ^ Suc k < epsilon"
    using shrink_below_epsilon by blast
  with assms have "\<exists>n \<le> Suc k. \<exists>r. time_loop n D st = Some r"
    by (rule all_rejected_ends_within)
  then show "\<exists>n r. time_loop n D st = Some r" by blast
next
  show "\<not> last_step st \<and> max_tsteps D < steps st \<and> t st + dt st < t_final D \<longrightarrow>
            (\<exists>n. time_loop n D st = Some (Inl TimeStepCrashed))"
  proof
    assume a: "\<not> last_step st \<and> max_tsteps D < steps st \<and> t st + dt st < t_final D"
    obtain k where k: "dt st * 0.85 ^ Suc k < epsilon"
      using shrink_below_epsilon by blast
    have "\<exists>n \<le> Suc k. time_loop n D st = Some (Inl TimeStepCrashed)"
      using assms a k by (intro all_rejected_aborts_within) simp_all
    then show "\<exists>n. time_loop n D st = Some (Inl TimeStepCrashed)" by blast
  qed
qed

theorem all_rejected_ends_witness:
  "\<exists>n. time_loop n (sample_driver 10 (- 1) lower_estimate)
         \<lparr>S = 0, S_old = 0, t = 0, t_old = 0, dt = 1, last_step = False, steps = 0,
          ti = 1, hydro = 0\<rparr> = Some (Inl TimeStepCrashed)"
proof -
  let ?st = "\<lparr>S = 0::real, S_old = 0, t = 0, t_old = 0, dt = 1, last_step = False,
              steps = 0, ti = 1, hydro = 0::real\<rparr>"
  let ?D = "sample_driver 10 (- 1) lower_estimate"
  have "\<And>st'. rejected ?D st'"
    by (simp add: sample_defs rejected_def new_estimate_def used_dt_def attempt_def
        Let_def split: prod.splits)
  then have h1: "\<forall>st'\<in>reach ?D ?st. \<not> last_step st' \<longrightarrow> rejected ?D st'" by blast
  have h2: "\<not> last_step ?st \<and> max_tsteps ?D < steps ?st \<and> t ?st + dt ?st < t_final ?D"
    by (simp add: sample_defs)
  from all_rejected_ends [OF h1] h2 show ?thesis by blast
qed

text \<open>
  The claim as the specification states it fails: with a step limit of 1, two attempts
  are made, both are rejected, and the loop is left without any abort.
\<close>

theorem all_rejected_limit_counterexample:
  "rejected (sample_driver 10 1 lower_estimate)
     \<lparr>S = 0, S_old = 0, t = 0, t_old = 0, dt = 1, last_step = False, steps = 0, ti = 1,
      hydro = 0\<rparr> \<and>
   iteration (sample_driver 10 1 lower_estimate)
     \<lparr>S = 0, S_old = 0, t = 0, t_old = 0, dt = 1, last_step = False, steps = 0, ti = 1,
      hydro = 0\<rparr> =
   Inr \<lparr>S = 0, S_old = 0, t = 0, t_old = 0, dt = 0.85, last_step = False, steps = 1, ti = 1,
        hydro = 0\<rparr> \<and>
   rejected (sample_driver 10 1 lower_estimate)
     \<lparr>S = 0, S_old = 0, t = 0, t_old = 0, dt = 0.85, last_step = False, steps = 1, ti = 1,
      hydro = 0\<rparr> \<and>
   time_loop 2 (sample_driver 10 1 lower_estimate)
     \<lparr>S = 0, S_old = 0, t = 0, t_old = 0, dt = 1, last_step = False, steps = 0, ti = 1,
      hydro = 0\<rparr> =
   Some (Inr \<lparr>S = 0, S_old = 0, t = 0, t_old = 0, dt = 0.7225, last_step = True, steps = 2,
              ti = 1, hydro = 0\<rparr>)"
  by (simp add: sample_defs pass_defs numeral_2_eq_2)

section \<open>Properties of the force integrator\<close>

lemma set_elem_shape:
  "Height (set_elem M i j v) = Height M"
  "Width (set_elem M i j v) = Width M"
  "length (Data (set_elem M i j v)) = length (Data M)"
  by (simp_all add: set_elem_def)

lemma set_elem_nth:
  "m < length (Data M) \<Longrightarrow>
   Data (set_elem M i j v) ! m = (if m = i + j * Height M then v else Data M ! m)"
  by (simp add: set_elem_def nth_list_update)

lemma fold_accumulate:
  "(\<And>k M. k \<in> set ks \<Longrightarrow> Height M = h \<Longrightarrow> length (Data M) = n \<Longrightarrow>
            Height (G k M) = h \<and> length (Data (G k M)) = n \<and>
            (\<forall>m<n. Data (G k M) ! m = Data M ! m + a k m)) \<Longrightarrow>
         Height M = h \<Longrightarrow> length (Data M) = n \<Longrightarrow>
         Height (fold G ks M) = h \<and> length (Data (fold G ks M)) = n \<and>
         (\<forall>m<n. Data (fold G ks M) ! m = Data M ! m + (\<Sum>k\<leftarrow>ks. a k m))"
proof (induction ks arbitrary: M)
  case Nil
  then show ?case by simp
next
  case (Cons k ks)
  from Cons.prems(1) [of k M] Cons.prems(2,3)
  have g: "Height (G k M) = h" "length (Data (G k M)) = n"
    "\<forall>m<n. Data (G k M) ! m = Data M ! m + a k m" by simp_all
  have "Height (fold G ks (G k M)) = h \<and> length (Data (fold G ks (G k M))) = n \<and>
         (\<forall>m<n. Data (fold G ks (G k M)) ! m = Data (G k M) ! m + (\<Sum>k\<leftarrow>ks. a k m))"
    using Cons.prems(1) g(1,2) by (intro Cons.IH) simp_all
  with g(3) show ?case by (simp add: add.assoc)
qed

lemma fold_writes:
  "(\<And>k M. k \<in> set ks \<Longrightarrow> Height M = h \<Longrightarrow> length (Data M) = n \<Longrightarrow>
            Height (G k M) = h \<and> length (Data (G k M)) = n \<and>
            (\<forall>m<n. Data (G k M) ! m = (if m \<in> P k then g m else Data M ! m))) \<Longrightarrow>
         Height M = h \<Longrightarrow> length (Data M) = n \<Longrightarrow>
         Height (fold G ks M) = h \<and> length (Data (fold G ks M)) = n \<and>
         (\<forall>m<n. Data (fold G ks M) ! m =
                  (if m \<in> (\<Union>k\<in>set ks. P k) then g m else Data M ! m))"
proof (induction ks arbitrary: M)
  case Nil
  then show ?case by simp
next
  case (Cons k ks)
  from Cons.prems(1) [of k M] Cons.prems(2,3)
  have g: "Height (G k M) = h" "length (Data (G k M)) = n"
    "\<forall>m<n. Data (G k M) ! m = (if m \<in> P k then g m else Data M ! m)" by simp_all
  have "Height (fold G ks (G k M)) = h \<and> length (Data (fold G ks (G k M))) = n \<and>
         (\<forall>m<n. Data (fold G ks (G k M)) ! m =
                  (if m \<in> (\<Union>k\<in>set ks. P k) then g m else Data (G k M) ! m))"
    using Cons.prems(1) g(1,2) by (intro Cons.IH) simp_all
  with g(3) show ?case by auto
qed

lemma sum_list_single:
  "(\<Sum>k\<leftarrow>[0..<n]. if k = x then f k else 0) = (if x < n then f x else (0::real))"
  by (induction n) auto

lemma sum_list_none:
  "(\<And>k. k < n \<Longrightarrow> f k = (0::real)) \<Longrightarrow> (\<Sum>k\<leftarrow>[0..<n]. f k) = 0"
  by (induction n) auto

lemma column_major_unique:
  assumes "(r::nat) < h" "i < h"
  shows "r + c * h = i + j * h \<longleftrightarrow> r = i \<and> c = j"
proof
  assume e: "r + c * h = i + j * h"
  then have "(r + c * h) mod h = (i + j * h) mod h" by simp
  with assms have ri: "r = i" by simp
  with e assms show "r = i \<and> c = j" by simp
qed simp

lemma fold_Width:
  "(\<And>k M. Width (G k M) = Width M) \<Longrightarrow> Width (fold G ks M) = Width M"
  by (induction ks arbitrary: M) simp_all

lemma AddMultVWt_Width: "Width (AddMultVWt mm v w M) = Width M"
  unfolding AddMultVWt_def
  by (intro fold_Width) (simp add: set_elem_shape)

lemma AddMultVWt_entries:
  assumes "Height M = h" and "length (Data M) = n"
  shows "Height (AddMultVWt mm v w M) = h \<and> length (Data (AddMultVWt mm v w M)) = n \<and>
         (\<forall>m<n. Data (AddMultVWt mm v w M) ! m =
                  Data M ! m + (\<Sum>i\<leftarrow>[0..<mm]. \<Sum>j\<leftarrow>[0..<length w].
                                  if m = i + j * h then v i * w ! j else 0))"
  unfolding AddMultVWt_def
proof (rule fold_accumulate [where a = "\<lambda>i m. \<Sum>j\<leftarrow>[0..<length w].
                                  if m = i + j * h then v i * w ! j else 0"])
  show "Height M = h" and "length (Data M) = n" by fact+
next
  fix i and M' :: dense_matrix
  assume sh: "Height M' = h" "length (Data M') = n"
  show "Height (fold (\<lambda>j M. set_elem M i j (elem M i j + v i * w ! j)) [0..<length w] M') = h \<and>
       length (Data (fold (\<lambda>j M. set_elem M i j (elem M i j + v i * w ! j)) [0..<length w] M')) = n \<and>
       (\<forall>m<n. Data (fold (\<lambda>j M. set_elem M i j (elem M i j + v i * w ! j)) [0..<length w] M') ! m =
              Data M' ! m + (\<Sum>j\<leftarrow>[0..<length w]. if m = i + j * h then v i * w ! j else 0))"
  proof (rule fold_accumulate [where a = "\<lambda>j m. if m = i + j * h then v i * w ! j else 0",
        OF _ sh])
    fix j and M'' :: dense_matrix
    assume "Height M'' = h" and "length (Data M'') = n"
    then show "Height (set_elem M'' i j (elem M'' i j + v i * w ! j)) = h \<and>
       length (Data (set_elem M'' i j (elem M'' i j + v i * w ! j))) = n \<and>
       (\<forall>m<n. Data (set_elem M'' i j (elem M'' i j + v i * w ! j)) ! m =
              Data M'' ! m + (if m = i + j * h then v i * w ! j else 0))"
      by (simp add: set_elem_shape set_elem_nth elem_def)
  qed
qed

lemma form_loc_force_entries:
  assumes "Height L = h1" and "length (Data L) = h1 * dm"
  shows "Height (form_loc_force sJ vs eq h1 dm L) = h1 \<and>
         length (Data (form_loc_force sJ vs eq h1 dm L)) = h1 * dm \<and>
         (\<forall>m<h1 * dm. Data (form_loc_force sJ vs eq h1 dm L) ! m =
            (\<Sum>gd\<leftarrow>[0..<dm]. sJ (m div h1) eq gd * vs (m mod h1) gd))"
proof -
  let ?g = "\<lambda>m. \<Sum>gd\<leftarrow>[0..<dm]. sJ (m div h1) eq gd * vs (m mod h1) gd"
  let ?n = "h1 * dm"
  let ?body = "\<lambda>i vd loc. fold (\<lambda>gd loc. set_elem loc i vd
                                    (elem loc i vd + sJ vd eq gd * vs i gd))
                        [0..<dm] (set_elem loc i vd 0)"
  have cell: "Height (?body i vd M) = h1 \<and> length (Data (?body i vd M)) = ?n \<and>
       (\<forall>m<?n. Data (?body i vd M) ! m = (if m \<in> {i + vd * h1} then ?g m else Data M ! m))"
    if i: "i < h1" and vd: "vd < dm" and hM: "Height M = h1" and lM: "length (Data M) = ?n"
    for i vd and M :: dense_matrix
  proof -
    let ?M0 = "set_elem M i vd 0"
    have s0: "Height ?M0 = h1" "length (Data ?M0) = ?n"
      using hM lM by (simp_all add: set_elem_shape)
    have acc: "Height (?body i vd M) = h1 \<and> length (Data (?body i vd M)) = ?n \<and>
       (\<forall>m<?n. Data (?body i vd M) ! m = Data ?M0 ! m +
          (\<Sum>gd\<leftarrow>[0..<dm]. if m = i + vd * h1 then sJ vd eq gd * vs i gd else 0))"
    proof (rule fold_accumulate
        [where a = "\<lambda>gd m. if m = i + vd * h1 then sJ vd eq gd * vs i gd else 0", OF _ s0])
      fix gd and M' :: dense_matrix
      assume "Height M' = h1" and "length (Data M') = ?n"
      then show "Height (set_elem M' i vd (elem M' i vd + sJ vd eq gd * vs i gd)) = h1 \<and>
         length (Data (set_elem M' i vd (elem M' i vd + sJ vd eq gd * vs i gd))) = ?n \<and>
         (\<forall>m<?n. Data (set_elem M' i vd (elem M' i vd + sJ vd eq gd * vs i gd)) ! m =
            Data M' ! m + (if m = i + vd * h1 then sJ vd eq gd * vs i gd else 0))"
        by (simp add: set_elem_shape set_elem_nth elem_def)
    qed
    have "Data (?body i vd M) ! m = (if m \<in> {i + vd * h1} then ?g m else Data M ! m)"
      if m: "m < ?n" for m
    proof (cases "m = i + vd * h1")
      case True
      have "Data ?M0 ! m = 0"
        using True m lM hM by (simp add: set_elem_nth)
      moreover have "(i + vd * h1) div h1 = vd" "(i + vd * h1) mod h1 = i"
        using i by simp_all
      ultimately show ?thesis using acc m True by simp
    next
      case False
      have "Data ?M0 ! m = Data M ! m"
        using False m lM hM by (simp add: set_elem_nth)
      moreover have "(\<Sum>gd\<leftarrow>[0..<dm]. if m = i + vd * h1 then sJ vd eq gd * vs i gd else 0) = 0"
        using False by simp
      ultimately show ?thesis using acc m False by simp
    qed
    with acc show ?thesis by blast
  qed
  have row: "Height (fold (?body i) [0..<dm] M) = h1 \<and>
       length (Data (fold (?body i) [0..<dm] M)) = ?n \<and>
       (\<forall>m<?n. Data (fold (?body i) [0..<dm] M) ! m =
          (if m \<in> (\<Union>vd\<in>set [0..<dm]. {i + vd * h1}) then ?g m else Data M ! m))"
    if i: "i < h1" and hM: "Height M = h1" and lM: "length (Data M) = ?n"
    for i and M :: dense_matrix
  proof (rule fold_writes [where P = "\<lambda>vd. {i + vd * h1}" and g = ?g, OF _ hM lM])
    fix vd and M' :: dense_matrix
    assume "vd \<in> set [0..<dm]" and "Height M' = h1" and "length (Data M') = ?n"
    then show "Height (?body i vd M') = h1 \<and> length (Data (?body i vd M')) = ?n \<and>
       (\<forall>m<?n. Data (?body i vd M') ! m = (if m \<in> {i + vd * h1} then ?g m else Data M' ! m))"
      using cell [OF i, of vd M'] by simp
  qed
  have all: "Height (form_loc_force sJ vs eq h1 dm L) = h1 \<and>
         length (Data (form_loc_force sJ vs eq h1 dm L)) = ?n \<and>
         (\<forall>m<?n. Data (form_loc_force sJ vs eq h1 dm L) ! m =
            (if m \<in> (\<Union>i\<in>set [0..<h1]. \<Union>vd\<in>set [0..<dm]. {i + vd * h1}) then ?g m
             else Data L ! m))"
    unfolding form_loc_force_def
  proof (rule fold_writes [where P = "\<lambda>i. \<Union>vd\<in>set [0..<dm]. {i + vd * h1}" and g = ?g,
        OF _ assms])
    fix i and M' :: dense_matrix
    assume "i \<in> set [0..<h1]" and "Height M' = h1" and "length (Data M') = ?n"
    then show "Height (fold (?body i) [0..<dm] M') = h1 \<and>
       length (Data (fold (?body i) [0..<dm] M')) = ?n \<and>
       (\<forall>m<?n. Data (fold (?body i) [0..<dm] M') ! m =
          (if m \<in> (\<Union>vd\<in>set [0..<dm]. {i + vd * h1}) then ?g m else Data M' ! m))"
      using row [of i M'] by simp
  qed
  have cover: "m \<in> (\<Union>i\<in>set [0..<h1]. \<Union>vd\<in>set [0..<dm]. {i + vd * h1})" if "m < ?n" for m
  proof -
    from that have h: "0 < h1" by (cases h1) simp_all
    then have "m mod h1 < h1" by simp
    moreover have "m div h1 < dm"
      using that h by (simp add: less_mult_imp_div_less mult.commute)
    moreover have "m = m mod h1 + (m div h1) * h1" by simp
    ultimately show ?thesis by force
  qed
  from all cover show ?thesis by simp
qed

lemma double_indicator:
  assumes "r < h" and "c < n"
  shows "(\<Sum>i\<leftarrow>[0..<h]. \<Sum>j\<leftarrow>[0..<n]. if r + c * h = i + j * h then f i j else 0)
         = (f r c :: real)"
proof -
  have inner: "(\<Sum>j\<leftarrow>[0..<n]. if r + c * h = i + j * h then f i j else 0)
               = (if i = r then f i c else 0)" if "i \<in> set [0..<h]" for i
  proof -
    from that have i: "i < h" by simp
    have "(\<Sum>j\<leftarrow>[0..<n]. if r + c * h = i + j * h then f i j else 0)
          = (\<Sum>j\<leftarrow>[0..<n]. if j = c then (if i = r then f i j else 0) else 0)"
      using column_major_unique [OF assms(1) i]
      by (intro arg_cong [where f = sum_list] map_cong) auto
    also have "\<dots> = (if i = r then f i c else 0)"
      using assms(2) by (simp add: sum_list_single)
    finally show ?thesis .
  qed
  have "(\<Sum>i\<leftarrow>[0..<h]. \<Sum>j\<leftarrow>[0..<n]. if r + c * h = i + j * h then f i j else 0)
        = (\<Sum>i\<leftarrow>[0..<h]. if i = r then f i c else 0)"
    using inner by (intro arg_cong [where f = sum_list] map_cong) auto
  also have "\<dots> = f r c"
    using assms(1) by (simp add: sum_list_single)
  finally show ?thesis .
qed

lemma quadrature_loop:
  fixes E L :: dense_matrix
    and sJ dshape :: "nat \<Rightarrow> nat \<Rightarrow> nat \<Rightarrow> real" and shape :: "nat \<Rightarrow> nat \<Rightarrow> real"
    and e nqp h1 dm l2 :: nat
  assumes "Height E = l2" and "length (Data E) = l2 * (h1 * dm)"
    and "Height L = h1" and "length (Data L) = h1 * dm"
  defines "body \<equiv> \<lambda>q (elmat, loc_force).
                      let loc_force1 = form_loc_force sJ (dshape q) (e * nqp + q) h1 dm loc_force
                      in (AddMultVWt l2 (shape q) (Data loc_force1) elmat, loc_force1)"
  shows "Height (fst (fold body qs (E, L))) = l2 \<and>
         Width (fst (fold body qs (E, L))) = Width E \<and>
         length (Data (fst (fold body qs (E, L)))) = l2 * (h1 * dm) \<and>
         (\<forall>r<l2. \<forall>c<h1 * dm.
            Data (fst (fold body qs (E, L))) ! (r + c * l2) =
            Data E ! (r + c * l2) +
            (\<Sum>q\<leftarrow>qs. shape q r *
               (\<Sum>gd\<leftarrow>[0..<dm]. sJ (c div h1) (e * nqp + q) gd * dshape q (c mod h1) gd)))"
  using assms(1-4)
proof (induction qs arbitrary: E L)
  case Nil
  then show ?case by simp
next
  case (Cons q qs)
  let ?L1 = "form_loc_force sJ (dshape q) (e * nqp + q) h1 dm L"
  let ?E1 = "AddMultVWt l2 (shape q) (Data ?L1) E"
  let ?g = "\<lambda>c. \<Sum>gd\<leftarrow>[0..<dm]. sJ (c div h1) (e * nqp + q) gd * dshape q (c mod h1) gd"
  have b: "body q (E, L) = (?E1, ?L1)" by (simp add: body_def Let_def)
  from form_loc_force_entries [OF Cons.prems(3,4), of sJ "dshape q" "e * nqp + q"]
  have L1: "Height ?L1 = h1" "length (Data ?L1) = h1 * dm"
    "\<forall>m<h1 * dm. Data ?L1 ! m = ?g m" by simp_all
  from AddMultVWt_entries [OF Cons.prems(1,2), of l2 "shape q" "Data ?L1"]
  have E1: "Height ?E1 = l2" "length (Data ?E1) = l2 * (h1 * dm)"
    "\<forall>m<l2 * (h1 * dm). Data ?E1 ! m = Data E ! m +
        (\<Sum>i\<leftarrow>[0..<l2]. \<Sum>j\<leftarrow>[0..<h1 * dm].
           if m = i + j * l2 then shape q i * Data ?L1 ! j else 0)"
    by (simp_all add: L1(2))
  have W1: "Width ?E1 = Width E" by (rule AddMultVWt_Width)
  have entry: "Data ?E1 ! (r + c * l2) = Data E ! (r + c * l2) + shape q r * ?g c"
    if r: "r < l2" and c: "c < h1 * dm" for r c
  proof -
    have "r + c * l2 < l2 + c * l2" using r by simp
    also have "\<dots> = (Suc c) * l2" by simp
    also have "\<dots> \<le> (h1 * dm) * l2" using c by (intro mult_le_mono1) simp
    finally have m: "r + c * l2 < l2 * (h1 * dm)" by (simp add: mult.commute)
    from E1(3) m have "Data ?E1 ! (r + c * l2) = Data E ! (r + c * l2) +
        (\<Sum>i\<leftarrow>[0..<l2]. \<Sum>j\<leftarrow>[0..<h1 * dm].
           if r + c * l2 = i + j * l2 then shape q i * Data ?L1 ! j else 0)"
      by blast
    also have "(\<Sum>i\<leftarrow>[0..<l2]. \<Sum>j\<leftarrow>[0..<h1 * dm].
           if r + c * l2 = i + j * l2 then shape q i * Data ?L1 ! j else 0)
         = shape q r * Data ?L1 ! c"
      using r c by (rule double_indicator)
    also have "Data ?L1 ! c = ?g c" using L1(3) c by blast
    finally show ?thesis .
  qed
  from Cons.IH [OF E1(1,2) L1(1,2)]
  have IH: "Height (fst (fold body qs (?E1, ?L1))) = l2"
    "Width (fst (fold body qs (?E1, ?L1))) = Width ?E1"
    "length (Data (fst (fold body qs (?E1, ?L1)))) = l2 * (h1 * dm)"
    "\<forall>r<l2. \<forall>c<h1 * dm.
            Data (fst (fold body qs (?E1, ?L1))) ! (r + c * l2) =
            Data ?E1 ! (r + c * l2) +
            (\<Sum>q\<leftarrow>qs. shape q r *
               (\<Sum>gd\<leftarrow>[0..<dm]. sJ (c div h1) (e * nqp + q) gd * dshape q (c mod h1) gd))"
    by simp_all
  have f: "fold body (q # qs) (E, L) = fold body qs (?E1, ?L1)"
    by (simp add: b)
  show ?case
    unfolding f using IH W1 entry by (simp add: add.assoc)
qed

lemma SetSize_length: "length (SetSize n xs) = n"
  by (simp add: SetSize_def)

lemma sum_list_upt_lessThan: "(\<Sum>k\<leftarrow>[0..<n]. f k) = (\<Sum>k<n. (f k :: real))"
  by (simp add: interv_sum_list_conv_sum_set_nat atLeast0LessThan)

text \<open>
  C8. For every zone \<open>e\<close> the integrator returns a matrix with as many rows as the
  thermodynamic (test) element has dofs and as many columns as the kinematic (trial)
  element has dofs times the dimension, whatever \<^verbatim>\<open>elmat\<close> held before. Its entry in row
  \<open>r\<close> and in the column of kinematic dof \<open>i\<close> and velocity component \<open>vd\<close> is the sum, over
  the integration points of the zone, of the thermodynamic basis value \<open>r\<close> at the point
  times the contraction of the stress (as stored in \<^verbatim>\<open>stressJinvT\<close>) with the gradient of
  kinematic basis function \<open>i\<close> at the point.
\<close>

theorem AssembleElementMatrix2_entries:
  "Height (AssembleElementMatrix2 nqp stressJinvT trial_fe test_fe e elmat) = GetDof test_fe \<and>
   Width (AssembleElementMatrix2 nqp stressJinvT trial_fe test_fe e elmat)
     = GetDof trial_fe * GetDim trial_fe \<and>
   length (Data (AssembleElementMatrix2 nqp stressJinvT trial_fe test_fe e elmat))
     = GetDof test_fe * (GetDof trial_fe * GetDim trial_fe) \<and>
   (\<forall>r<GetDof test_fe. \<forall>i<GetDof trial_fe. \<forall>vd<GetDim trial_fe.
      elem (AssembleElementMatrix2 nqp stressJinvT trial_fe test_fe e elmat)
           r (i + vd * GetDof trial_fe)
      = (\<Sum>q<nqp. CalcShape test_fe q r *
           (\<Sum>gd<GetDim trial_fe.
              stressJinvT vd (e * nqp + q) gd * CalcDShape trial_fe q i gd)))"
proof -
  let ?dm = "GetDim trial_fe" and ?h1 = "GetDof trial_fe" and ?l2 = "GetDof test_fe"
  let ?E0 = "assign_all 0 (DenseMatrix_SetSize ?l2 (?h1 * ?dm) elmat)"
  let ?L0 = "\<lparr>Height = ?h1, Width = ?dm, Data = replicate (?h1 * ?dm) (0::real)\<rparr>"
  let ?R = "AssembleElementMatrix2 nqp stressJinvT trial_fe test_fe e elmat"
  have E0: "Height ?E0 = ?l2" "Width ?E0 = ?h1 * ?dm" "length (Data ?E0) = ?l2 * (?h1 * ?dm)"
    by (simp_all add: assign_all_def DenseMatrix_SetSize_def SetSize_length)
  have E0z: "Data ?E0 ! m = 0" if "m < ?l2 * (?h1 * ?dm)" for m
    using that by (simp add: assign_all_def DenseMatrix_SetSize_def SetSize_length)
  have L0: "Height ?L0 = ?h1" "length (Data ?L0) = ?h1 * ?dm" by simp_all
  have R: "?R = fst (fold (\<lambda>q (elmat, loc_force).
                      let loc_force1 = form_loc_force stressJinvT (CalcDShape trial_fe q)
                                         (e * nqp + q) ?h1 ?dm loc_force
                      in (AddMultVWt ?l2 (CalcShape test_fe q) (Data loc_force1) elmat,
                          loc_force1))
                   [0..<nqp] (?E0, ?L0))"
    by (simp add: AssembleElementMatrix2_def Let_def)
  note loop = quadrature_loop [OF E0(1,3) L0, of stressJinvT "CalcDShape trial_fe" e nqp
      "CalcShape test_fe" "[0..<nqp]", folded R]
  from loop have shape: "Height ?R = ?l2" "Width ?R = ?h1 * ?dm"
    "length (Data ?R) = ?l2 * (?h1 * ?dm)"
    using E0(2) by simp_all
  have entries: "elem ?R r (i + vd * ?h1)
      = (\<Sum>q<nqp. CalcShape test_fe q r *
           (\<Sum>gd<?dm. stressJinvT vd (e * nqp + q) gd * CalcDShape trial_fe q i gd))"
    if r: "r < ?l2" and i: "i < ?h1" and vd: "vd < ?dm" for r i vd
  proof -
    have "i + vd * ?h1 < ?h1 + vd * ?h1" using i by simp
    also have "\<dots> = Suc vd * ?h1" by simp
    also have "\<dots> \<le> ?dm * ?h1" using vd by (intro mult_le_mono1) simp
    finally have c: "i + vd * ?h1 < ?h1 * ?dm" by (simp add: mult.commute)
    have dv: "(i + vd * ?h1) div ?h1 = vd" "(i + vd * ?h1) mod ?h1 = i"
      using i by simp_all
    have "r + (i + vd * ?h1) * ?l2 < ?l2 + (i + vd * ?h1) * ?l2" using r by simp
    also have "\<dots> = Suc (i + vd * ?h1) * ?l2" by simp
    also have "\<dots> \<le> (?h1 * ?dm) * ?l2" using c by (intro mult_le_mono1) simp
    finally have m: "r + (i + vd * ?h1) * ?l2 < ?l2 * (?h1 * ?dm)" by (simp add: mult.commute)
    from loop r c have "Data ?R ! (r + (i + vd * ?h1) * ?l2) =
            Data ?E0 ! (r + (i + vd * ?h1) * ?l2) +
            (\<Sum>q\<leftarrow>[0..<nqp]. CalcShape test_fe q r *
               (\<Sum>gd\<leftarrow>[0..<?dm]. stressJinvT ((i + vd * ?h1) div ?h1) (e * nqp + q) gd *
                   CalcDShape trial_fe q ((i + vd * ?h1) mod ?h1) gd))"
      by blast
    then show ?thesis
      unfolding dv by (simp add: elem_def shape(1) E0z [OF m] sum_list_upt_lessThan)
  qed
  from shape entries show ?thesis by blast
qed

theorem AssembleElementMatrix2_entries_witness:
  "elem (AssembleElementMatrix2 2 sample_stress
     \<lparr>GetDim = 2, GetDof = 1, CalcShape = sample_shape, CalcDShape = sample_dshape\<rparr>
     \<lparr>GetDim = 2, GetDof = 1, CalcShape = sample_shape, CalcDShape = sample_dshape\<rparr> 0
     \<lparr>Height = 0, Width = 0, Data = []\<rparr>) 0 1 = - 3"
proof -
  let ?fe = "\<lparr>GetDim = 2, GetDof = 1, CalcShape = sample_shape, CalcDShape = sample_dshape\<rparr>"
  let ?R = "AssembleElementMatrix2 2 sample_stress ?fe ?fe 0 \<lparr>Height = 0, Width = 0, Data = []\<rparr>"
  from AssembleElementMatrix2_entries
         [of 2 sample_stress ?fe ?fe 0 "\<lparr>Height = 0, Width = 0, Data = []\<rparr>"]
  have "\<forall>r<GetDof ?fe. \<forall>i<GetDof ?fe. \<forall>vd<GetDim ?fe.
      elem ?R r (i + vd * GetDof ?fe)
      = (\<Sum>q<2. CalcShape ?fe q r *
           (\<Sum>gd<GetDim ?fe. sample_stress vd (0 * 2 + q) gd * CalcDShape ?fe q i gd))"
    by (rule conjunct2 [THEN conjunct2, THEN conjunct2])
  then have "elem ?R 0 (0 + 1 * GetDof ?fe)
      = (\<Sum>q<2. CalcShape ?fe q 0 *
           (\<Sum>gd<GetDim ?fe. sample_stress 1 (0 * 2 + q) gd * CalcDShape ?fe q 0 gd))"
    by simp
  then show ?thesis
    by (simp add: sample_stress_def sample_shape_def sample_dshape_def numeral_2_eq_2)
qed

end
